theory Spec2Isabelle
  imports Complex_Main "HOL-Library.Word" "HOL-Library.Sublist"
begin

unbundle bit_operations_syntax

section \<open>JavaScript strings\<close>

text \<open>
  A JavaScript string is a sequence of UTF-16 code units: \<open>length\<close> counts code units,
  \<open>charCodeAt(i)\<close> reads one, \<open>slice\<close>, \<open>indexOf\<close>, \<open>startsWith\<close> and
  \<open>includes\<close> work on code units. The string \<open>"a\n"\<close> is \<open>[0x61, 0x0A]\<close>.
\<close>

type_synonym codeunit = "16 word"
type_synonym jsstring = "codeunit list"

section \<open>ShardRouter (vector/shard-router.ts)\<close>

text \<open>
  \<^verbatim>\<open>
  export function fnv1a32(input: string): number {
    let hash = 0x811c9dc5;
    for (let i = 0; i < input.length; i++) {
      hash ^= input.charCodeAt(i);
      hash = Math.imul(hash, 0x01000193);
    }
    return hash >>> 0;
  }
  \<close>
  \<open>^=\<close> and \<open>Math.imul\<close> work on the 32-bit value of \<open>hash\<close>; \<open>charCodeAt\<close> is a
  16-bit code unit, zero-extended; \<open>>>> 0\<close> reads the 32 bits as an unsigned number.
\<close>

fun fnv1a32_loop :: "32 word \<Rightarrow> jsstring \<Rightarrow> 32 word" where
  "fnv1a32_loop hash [] = hash"
| "fnv1a32_loop hash (c # cs) = fnv1a32_loop ((hash XOR ucast c) * 0x01000193) cs"

definition fnv1a32 :: "jsstring \<Rightarrow> nat" where
  "fnv1a32 input = unat (fnv1a32_loop 0x811c9dc5 input)"

text \<open>
  \<^verbatim>\<open>getShardId(docUri) { return fnv1a32(docUri) % this.shardCount; }\<close>
  The shard count is a constructor argument (default 128). \<open>x % 0\<close> is \<open>NaN\<close> in
  JavaScript, written \<open>None\<close> here.
\<close>

definition DEFAULT_SHARD_COUNT :: nat where
  "DEFAULT_SHARD_COUNT = 128"

definition getShardId :: "nat \<Rightarrow> jsstring \<Rightarrow> nat option" where
  "getShardId shardCount docUri =
     (if shardCount = 0 then None else Some (fnv1a32 docUri mod shardCount))"

subsection \<open>The specification's hash: FNV-1a over the UTF-8 bytes\<close>

text \<open>
  The specification's \<open>FNV1a32(utf8(docUri)) mod SHARD_COUNT\<close>, written from its words:
  the string is decoded from UTF-16 (a high surrogate followed by a low surrogate is one
  code point; a lone surrogate encodes as U+FFFD, as \<open>TextEncoder\<close> does), each code
  point is encoded in UTF-8, and FNV-1a runs over the bytes.
\<close>

definition utf8_codepoint :: "nat \<Rightarrow> 8 word list" where
  "utf8_codepoint cp =
     (if cp < 0x80 then [of_nat cp]
      else if cp < 0x800 then [of_nat (0xC0 + cp div 64), of_nat (0x80 + cp mod 64)]
      else if cp < 0x10000 then
        [of_nat (0xE0 + cp div 4096), of_nat (0x80 + (cp div 64) mod 64),
         of_nat (0x80 + cp mod 64)]
      else
        [of_nat (0xF0 + cp div 262144), of_nat (0x80 + (cp div 4096) mod 64),
         of_nat (0x80 + (cp div 64) mod 64), of_nat (0x80 + cp mod 64)])"

definition is_high_surrogate :: "codeunit \<Rightarrow> bool" where
  "is_high_surrogate c \<longleftrightarrow> 0xD800 \<le> unat c \<and> unat c < 0xDC00"

definition is_low_surrogate :: "codeunit \<Rightarrow> bool" where
  "is_low_surrogate c \<longleftrightarrow> 0xDC00 \<le> unat c \<and> unat c < 0xE000"

fun spec_utf8 :: "jsstring \<Rightarrow> 8 word list" where
  "spec_utf8 [] = []"
| "spec_utf8 [c] =
     (if is_high_surrogate c \<or> is_low_surrogate c then utf8_codepoint 0xFFFD
      else utf8_codepoint (unat c))"
| "spec_utf8 (h # l # cs) =
     (if is_high_surrogate h \<and> is_low_surrogate l then
        utf8_codepoint (0x10000 + (unat h - 0xD800) * 1024 + (unat l - 0xDC00)) @ spec_utf8 cs
      else if is_high_surrogate h \<or> is_low_surrogate h then
        utf8_codepoint 0xFFFD @ spec_utf8 (l # cs)
      else utf8_codepoint (unat h) @ spec_utf8 (l # cs))"

fun spec_FNV1a32_loop :: "32 word \<Rightarrow> 8 word list \<Rightarrow> 32 word" where
  "spec_FNV1a32_loop hash [] = hash"
| "spec_FNV1a32_loop hash (b # bs) = spec_FNV1a32_loop ((hash XOR ucast b) * 0x01000193) bs"

definition spec_FNV1a32 :: "8 word list \<Rightarrow> nat" where
  "spec_FNV1a32 bytes = unat (spec_FNV1a32_loop 0x811c9dc5 bytes)"

definition spec_shardId :: "nat \<Rightarrow> jsstring \<Rightarrow> nat option" where
  "spec_shardId shardCount docUri =
     (if shardCount = 0 then None else Some (spec_FNV1a32 (spec_utf8 docUri) mod shardCount))"

section \<open>Errors\<close>

text \<open>
  Every \<open>throw\<close> of the modelled code is a value of this type: the engine's
  \<open>MsrlError\<close> codes, the plain \<open>Error\<close>s of the hybrid scorer and the snapshot
  manager, and the rejection of an injected dependency.
\<close>

datatype error =
    NOT_INDEXED
  | INVALID_ARGUMENT string
  | WeightsMustSumToOne
  | SnapshotNotFound
  | CannotDeleteActiveSnapshot
  | NoPreviousSnapshot
  | DependencyFailed

section \<open>JavaScript numbers\<close>

text \<open>
  A JavaScript number is an IEEE 754 double: \<open>NaN\<close>, one of the two infinities, or a
  finite value, which the model takes as the real number it denotes (the two zeros are
  one value: the modelled code does not divide).
\<close>

datatype number = NaN | PosInf | NegInf | Fin real

text \<open>
  \<open>a < b\<close>; every comparison with \<open>NaN\<close> is false.
\<close>

fun num_less :: "number \<Rightarrow> number \<Rightarrow> bool" where
  "num_less (Fin x) (Fin y) = (x < y)"
| "num_less NegInf (Fin y) = True"
| "num_less NegInf PosInf = True"
| "num_less (Fin x) PosInf = True"
| "num_less _ _ = False"

text \<open>\<open>a !== b\<close> on numbers: \<open>NaN\<close> differs from every number, itself included.\<close>

definition num_neq :: "number \<Rightarrow> number \<Rightarrow> bool" where
  "num_neq a b \<longleftrightarrow> a = NaN \<or> b = NaN \<or> a \<noteq> b"

fun num_neg :: "number \<Rightarrow> number" where
  "num_neg NaN = NaN"
| "num_neg PosInf = NegInf"
| "num_neg NegInf = PosInf"
| "num_neg (Fin x) = Fin (- x)"

text \<open>\<open>Math.abs\<close>\<close>

fun num_abs :: "number \<Rightarrow> number" where
  "num_abs NaN = NaN"
| "num_abs PosInf = PosInf"
| "num_abs NegInf = PosInf"
| "num_abs (Fin x) = Fin \<bar>x\<bar>"

text \<open>
  The sign of a number that is not \<open>NaN\<close>: 1, 0 or -1.
\<close>

fun num_sgn :: "number \<Rightarrow> int" where
  "num_sgn NaN = 0"
| "num_sgn PosInf = 1"
| "num_sgn NegInf = -1"
| "num_sgn (Fin x) = (if 0 < x then 1 else if x < 0 then -1 else 0)"

text \<open>
  The arithmetic operators compute the exact result of two finite operands and round it
  to a double, or to an infinity when it is too large. The rounding is IEEE 754
  round-to-nearest, ties to even; it is the host's and not code of the repository, and
  the model takes it as the parameter \<open>rnd\<close>. A decimal literal of the source that is
  not a double, such as \<open>0.7\<close>, denotes \<open>rnd 0.7\<close>. With an infinity or \<open>NaN\<close> among
  the operands the result is what IEEE 754 prescribes.
\<close>

fun num_add :: "(real \<Rightarrow> number) \<Rightarrow> number \<Rightarrow> number \<Rightarrow> number" where
  "num_add rnd (Fin x) (Fin y) = rnd (x + y)"
| "num_add rnd NaN _ = NaN"
| "num_add rnd _ NaN = NaN"
| "num_add rnd PosInf NegInf = NaN"
| "num_add rnd NegInf PosInf = NaN"
| "num_add rnd PosInf _ = PosInf"
| "num_add rnd _ PosInf = PosInf"
| "num_add rnd NegInf _ = NegInf"
| "num_add rnd _ NegInf = NegInf"

definition num_sub :: "(real \<Rightarrow> number) \<Rightarrow> number \<Rightarrow> number \<Rightarrow> number" where
  "num_sub rnd a b = num_add rnd a (num_neg b)"

fun num_mul :: "(real \<Rightarrow> number) \<Rightarrow> number \<Rightarrow> number \<Rightarrow> number" where
  "num_mul rnd (Fin x) (Fin y) = rnd (x * y)"
| "num_mul rnd NaN _ = NaN"
| "num_mul rnd _ NaN = NaN"
| "num_mul rnd a b =
     (if num_sgn a * num_sgn b = 0 then NaN
      else if 0 < num_sgn a * num_sgn b then PosInf else NegInf)"


text \<open>
  The rounding for the concrete runs of this theory: each exact result that occurs in
  them and is not a double goes to the double nearest to it; every other real number is
  left as it is, as the rounding leaves the doubles. The entries are the literals
  \<open>0.7\<close>, \<open>0.3\<close>, \<open>0.001\<close>, \<open>0.9\<close>, \<open>0.1\<close> and \<open>0.999\<close>, the sum of the doubles
  of 0.7 and 0.3 (which rounds to 1), and the products and sums of the fusion runs.
\<close>

definition runRounding :: "real \<Rightarrow> number" where
  "runRounding x =
     (if x = 7 / 10 then Fin (3152519739159347 / 4503599627370496)
      else if x = 3 / 10 then Fin (5404319552844595 / 18014398509481984)
      else if x = 1 / 1000 then Fin (1152921504606847 / 1152921504606846976)
      else if x = 9 / 10 then Fin (8106479329266893 / 9007199254740992)
      else if x = 1 / 10 then Fin (3602879701896397 / 36028797018963968)
      else if x = 999 / 1000 then Fin (8998192055486251 / 9007199254740992)
      else if x = 18014398509481983 / 18014398509481984 then Fin 1
      else if x = 43810004743887607575294107493335 / 162259276829213363391578010288128
        then Fin (607985949695017 / 2251799813685248)
      else if x = 25555836100601103743381618598871 / 40564819207303340847894502572032
        then Fin (5674535530486825 / 9007199254740992)
      else if x = 19471113219505603967277331424215 / 649037107316853453566312041152512
        then Fin (1080863910568919 / 36028797018963968)
      else if x = 23779006032516219 / 36028797018963968
        then Fin (5944751508129055 / 9007199254740992)
      else if x = 9457559217478041 / 36028797018963968
        then Fin (1182194902184755 / 4503599627370496)
      else if x = 37830236869912165 / 144115188075855872
        then Fin (4728779608739021 / 18014398509481984)
      else Fin x)"



definition accurate_rounding :: "(real \<Rightarrow> number) \<Rightarrow> bool" where
  "accurate_rounding rnd \<longleftrightarrow>
     (\<forall>x. \<bar>x\<bar> \<le> 2 \<longrightarrow> (\<exists>y. rnd x = Fin y \<and> \<bar>y - x\<bar> \<le> 1 / 10 ^ 15))"

section \<open>Array.prototype.sort, Map and Set\<close>

text \<open>
  \<open>Array.prototype.sort(cmp)\<close> is stable; \<open>cmp(a, b) > 0\<close> puts \<open>a\<close> after \<open>b\<close>, and
  a result that is \<open>NaN\<close> counts as 0. The model is the stable insertion sort: an
  element goes before the first element it does not have to follow. (For a comparator
  that is not consistent ECMAScript leaves the order to the implementation.)
\<close>

fun js_insort :: "('a \<Rightarrow> 'a \<Rightarrow> number) \<Rightarrow> 'a \<Rightarrow> 'a list \<Rightarrow> 'a list" where
  "js_insort cmp x [] = [x]"
| "js_insort cmp x (y # ys) =
     (if num_less (Fin 0) (cmp x y) then y # js_insort cmp x ys else x # y # ys)"

definition js_sort :: "('a \<Rightarrow> 'a \<Rightarrow> number) \<Rightarrow> 'a list \<Rightarrow> 'a list" where
  "js_sort cmp xs = foldr (js_insort cmp) xs []"

text \<open>
  A \<open>Map\<close> keeps its keys in the order of their first insertion; \<open>set\<close> on a present
  key replaces the value in place. A \<open>Set\<close> keeps the first occurrence of each element.
\<close>

fun Map_set :: "'k \<Rightarrow> 'v \<Rightarrow> ('k \<times> 'v) list \<Rightarrow> ('k \<times> 'v) list" where
  "Map_set k v [] = [(k, v)]"
| "Map_set k v (p # m) = (if fst p = k then (k, v) # m else p # Map_set k v m)"

definition Map_get :: "('k \<times> 'v) list \<Rightarrow> 'k \<Rightarrow> 'v option" where
  "Map_get m k = map_of m k"

definition Set_add :: "'a \<Rightarrow> 'a list \<Rightarrow> 'a list" where
  "Set_add x s = (if x \<in> set s then s else s @ [x])"

definition new_Set :: "'a list \<Rightarrow> 'a list" where
  "new_Set xs = foldl (\<lambda>s x. Set_add x s) [] xs"

section \<open>HybridScorer (retrieval/hybrid-scorer.ts)\<close>

text \<open>
  Scores and weights are JavaScript numbers. \<open>cachedVectorScore\<close> is optional:
  \<open>None\<close> is \<open>undefined\<close>.
\<close>

record VectorResult =
  vr_leafId :: jsstring
  vr_vectorScore :: number

record BM25Result =
  br_leafId :: jsstring
  br_bm25Score :: number
  br_cachedVectorScore :: "number option"

record HybridResult =
  hr_leafId :: jsstring
  hr_score :: number
  hr_vectorScore :: number
  hr_bm25Score :: number

record HybridWeights =
  w_vector :: number
  w_bm25 :: number

text \<open>
  \<^verbatim>\<open>DEFAULT_HYBRID_WEIGHTS = { vector: 0.7, bm25: 0.3 }\<close>: the doubles that the two
  literals denote.
\<close>

definition DEFAULT_HYBRID_WEIGHTS :: "(real \<Rightarrow> number) \<Rightarrow> HybridWeights" where
  "DEFAULT_HYBRID_WEIGHTS rnd = \<lparr>w_vector = rnd 0.7, w_bm25 = rnd 0.3\<rparr>"

text \<open>
  \<^verbatim>\<open>
  constructor(weights: HybridWeights = DEFAULT_HYBRID_WEIGHTS) {
    const sum = weights.vector + weights.bm25;
    if (Math.abs(sum - 1.0) > 0.001) throw new Error(...);
    this.weights = weights;
  }
  \<close>
  The scorer's only field is \<open>weights\<close>; \<open>None\<close> is the omitted argument.
\<close>

definition new_HybridScorer ::
  "(real \<Rightarrow> number) \<Rightarrow> HybridWeights option \<Rightarrow> error + HybridWeights" where
  "new_HybridScorer rnd arg =
     (let weights = (case arg of None \<Rightarrow> DEFAULT_HYBRID_WEIGHTS rnd | Some w \<Rightarrow> w);
          sum = num_add rnd (w_vector weights) (w_bm25 weights)
      in if num_less (rnd 0.001) (num_abs (num_sub rnd sum (Fin 1.0)))
         then Inl WeightsMustSumToOne else Inr weights)"

text \<open>
  The sort callback of \<open>fuse\<close>:
  \<^verbatim>\<open>
  (a, b) => { if (b.score !== a.score) return b.score - a.score;
              return a.leafId.localeCompare(b.leafId); }
  \<close>
  \<open>String.prototype.localeCompare\<close> is the host's collation, not code of the
  repository: it is the parameter \<open>localeCompare\<close>. It returns an integer.
\<close>

definition fuse_compare ::
  "(real \<Rightarrow> number) \<Rightarrow> (jsstring \<Rightarrow> jsstring \<Rightarrow> int) \<Rightarrow> HybridResult \<Rightarrow> HybridResult \<Rightarrow>
   number" where
  "fuse_compare rnd localeCompare a b =
     (if num_neq (hr_score b) (hr_score a) then num_sub rnd (hr_score b) (hr_score a)
      else Fin (real_of_int (localeCompare (hr_leafId a) (hr_leafId b))))"

definition fuse_vectorMap :: "VectorResult list \<Rightarrow> (jsstring \<times> number) list" where
  "fuse_vectorMap vectorResults =
     foldl (\<lambda>m r. Map_set (vr_leafId r) (vr_vectorScore r) m) [] vectorResults"

definition fuse_bm25Map ::
  "BM25Result list \<Rightarrow> (jsstring \<times> number \<times> number option) list" where
  "fuse_bm25Map bm25Results =
     foldl (\<lambda>m r. Map_set (br_leafId r) (br_bm25Score r, br_cachedVectorScore r) m) [] bm25Results"

text \<open>
  The body of the loop over \<open>allLeafIds\<close>:
  \<^verbatim>\<open>
  const vectorScore = vectorMap.get(leafId) ?? bm25Map.get(leafId)?.cachedVectorScore ?? 0;
  const bm25Score = bm25Map.get(leafId)?.bm25Score ?? 0;
  const score = this.weights.vector * vectorScore + this.weights.bm25 * bm25Score;
  \<close>
\<close>

definition fuse_result ::
  "(real \<Rightarrow> number) \<Rightarrow> HybridWeights \<Rightarrow> (jsstring \<times> number) list \<Rightarrow>
   (jsstring \<times> number \<times> number option) list \<Rightarrow> jsstring \<Rightarrow> HybridResult" where
  "fuse_result rnd weights vectorMap bm25Map leafId =
     (let vectorScore =
            (case Map_get vectorMap leafId of
               Some v \<Rightarrow> v
             | None \<Rightarrow>
                 (case Map_get bm25Map leafId of
                    Some (b, Some cached) \<Rightarrow> cached
                  | _ \<Rightarrow> Fin 0));
          bm25Score = (case Map_get bm25Map leafId of Some (b, c) \<Rightarrow> b | None \<Rightarrow> Fin 0);
          score = num_add rnd (num_mul rnd (w_vector weights) vectorScore)
                              (num_mul rnd (w_bm25 weights) bm25Score)
      in \<lparr>hr_leafId = leafId, hr_score = score,
          hr_vectorScore = vectorScore, hr_bm25Score = bm25Score\<rparr>)"

definition fuse ::
  "(real \<Rightarrow> number) \<Rightarrow> (jsstring \<Rightarrow> jsstring \<Rightarrow> int) \<Rightarrow> HybridWeights \<Rightarrow>
   VectorResult list \<Rightarrow> BM25Result list \<Rightarrow> HybridResult list" where
  "fuse rnd localeCompare weights vectorResults bm25Results =
     (let vectorMap = fuse_vectorMap vectorResults;
          bm25Map = fuse_bm25Map bm25Results;
          allLeafIds = new_Set (map fst vectorMap @ map fst bm25Map);
          results = map (fuse_result rnd weights vectorMap bm25Map) allLeafIds
      in js_sort (fuse_compare rnd localeCompare) results)"

text \<open>
  A collation for concrete runs: comparison by code units. On leaf ids, which are
  sixteen lowercase hexadecimal digits, and on lowercase ASCII letters it orders as
  \<open>localeCompare\<close> does.
\<close>

fun codeUnitCompare :: "jsstring \<Rightarrow> jsstring \<Rightarrow> int" where
  "codeUnitCompare [] [] = 0"
| "codeUnitCompare [] (y # ys) = -1"
| "codeUnitCompare (x # xs) [] = 1"
| "codeUnitCompare (x # xs) (y # ys) =
     (if x < y then -1 else if y < x then 1 else codeUnitCompare xs ys)"



subsection \<open>The specification's fusion\<close>

text \<open>
  The specification takes the candidates as two finite maps from leaf ids: a vector
  score per id, and a BM25 score with an optional cached vector score per id. In a
  list of candidates the entry of an id is its last one. Per id of either map: \<open>v\<close> is
  the vector score if the id is a vector candidate, else the cached vector score if
  there is one, else 0; \<open>b\<close> is the BM25 score if the id is a BM25 candidate, else 0;
  the fused score is \<open>w\<^sub>v \<cdot> v + w\<^sub>b \<cdot> b\<close>, in the arithmetic of doubles.
\<close>

definition spec_vectorCandidate :: "VectorResult list \<Rightarrow> jsstring \<Rightarrow> VectorResult option" where
  "spec_vectorCandidate vectorResults leafId =
     find (\<lambda>r. vr_leafId r = leafId) (rev vectorResults)"

definition spec_bm25Candidate :: "BM25Result list \<Rightarrow> jsstring \<Rightarrow> BM25Result option" where
  "spec_bm25Candidate bm25Results leafId =
     find (\<lambda>r. br_leafId r = leafId) (rev bm25Results)"

definition spec_v :: "VectorResult list \<Rightarrow> BM25Result list \<Rightarrow> jsstring \<Rightarrow> number" where
  "spec_v vectorResults bm25Results leafId =
     (case spec_vectorCandidate vectorResults leafId of
        Some r \<Rightarrow> vr_vectorScore r
      | None \<Rightarrow>
          (case spec_bm25Candidate bm25Results leafId of
             Some r \<Rightarrow> (case br_cachedVectorScore r of Some cached \<Rightarrow> cached | None \<Rightarrow> Fin 0)
           | None \<Rightarrow> Fin 0))"

definition spec_b :: "BM25Result list \<Rightarrow> jsstring \<Rightarrow> number" where
  "spec_b bm25Results leafId =
     (case spec_bm25Candidate bm25Results leafId of
        Some r \<Rightarrow> br_bm25Score r
      | None \<Rightarrow> Fin 0)"

definition spec_fused ::
  "(real \<Rightarrow> number) \<Rightarrow> HybridWeights \<Rightarrow> VectorResult list \<Rightarrow> BM25Result list \<Rightarrow> jsstring \<Rightarrow>
   HybridResult" where
  "spec_fused rnd weights vectorResults bm25Results leafId =
     \<lparr>hr_leafId = leafId,
      hr_score = num_add rnd
         (num_mul rnd (w_vector weights) (spec_v vectorResults bm25Results leafId))
         (num_mul rnd (w_bm25 weights) (spec_b bm25Results leafId)),
      hr_vectorScore = spec_v vectorResults bm25Results leafId,
      hr_bm25Score = spec_b bm25Results leafId\<rparr>"

definition candidateIds :: "VectorResult list \<Rightarrow> BM25Result list \<Rightarrow> jsstring set" where
  "candidateIds vectorResults bm25Results =
     vr_leafId ` set vectorResults \<union> br_leafId ` set bm25Results"

section \<open>SpanMerger (retrieval/span-merger.ts)\<close>






section \<open>RetrievalPipeline (retrieval/retrieval-pipeline.ts)\<close>



record SearchResult =
  sr_docUri :: jsstring
  sr_headingPath :: jsstring
  sr_startChar :: int
  sr_endChar :: int
  sr_excerpt :: jsstring
  sr_excerptTruncated :: bool
  sr_score :: number
  sr_vectorScore :: number
  sr_bm25Score :: number

text \<open>\<open>QueryResult\<close> is \<open>{results, meta: {tookMs}}\<close>.\<close>

record QueryResult =
  results :: "SearchResult list"
  meta_tookMs :: int

record LeafMetadata =
  md_docUri :: jsstring
  md_headingPath :: jsstring
  md_startChar :: int
  md_endChar :: int

record ExcerptResult =
  ex_excerpt :: jsstring
  ex_truncated :: bool

text \<open>
  The injected dependencies. A rejected promise or a thrown exception is \<open>Inl\<close>;
  \<open>getLeafMetadata\<close> resolves to \<open>null\<close> (\<open>None\<close>) for an unknown leaf.
\<close>

record PipelineDependencies =
  vectorSearch :: "jsstring \<Rightarrow> int \<Rightarrow> error + VectorResult list"
  bm25Search :: "jsstring \<Rightarrow> int \<Rightarrow> error + BM25Result list"
  getLeafMetadata :: "jsstring \<Rightarrow> error + LeafMetadata option"
  extractExcerpt :: "jsstring \<Rightarrow> int \<Rightarrow> int \<Rightarrow> error + ExcerptResult"

record RetrievalPipeline =
  deps :: PipelineDependencies
  hybridScorer :: HybridWeights

text \<open>
  \<^verbatim>\<open>
  constructor(deps) { this.deps = deps; this.hybridScorer = new HybridScorer();
                      this.spanMerger = new SpanMerger(); }
  \<close>
  The span merger has no state.
\<close>

definition new_RetrievalPipeline ::
  "(real \<Rightarrow> number) \<Rightarrow> PipelineDependencies \<Rightarrow> error + RetrievalPipeline" where
  "new_RetrievalPipeline rnd d =
     (case new_HybridScorer rnd None of
        Inl e \<Rightarrow> Inl e
      | Inr scorer \<Rightarrow> Inr \<lparr>deps = d, hybridScorer = scorer\<rparr>)"

text \<open>
  \<open>String.prototype.trim\<close> removes leading and trailing white space and line
  terminators of ECMAScript.
\<close>

definition isWhiteSpace :: "codeunit \<Rightarrow> bool" where
  "isWhiteSpace c \<longleftrightarrow>
     c \<in> {0x09, 0x0A, 0x0B, 0x0C, 0x0D, 0x20, 0xA0, 0x1680, 0x2028, 0x2029, 0x202F,
          0x205F, 0x3000, 0xFEFF} \<or> (0x2000 \<le> c \<and> c \<le> 0x200A)"

definition trim :: "jsstring \<Rightarrow> jsstring" where
  "trim s = rev (dropWhile isWhiteSpace (rev (dropWhile isWhiteSpace s)))"







subsection \<open>The specification's filters\<close>









section \<open>MsrlEngine.query (engine.ts)\<close>





section \<open>Chunker (parser/chunker.ts)\<close>

text \<open>String operations of the chunker, on offsets that are natural numbers.\<close>

definition slice :: "jsstring \<Rightarrow> nat \<Rightarrow> nat \<Rightarrow> jsstring" where
  "slice s a b = take (b - a) (drop a s)"

fun indexOf0 :: "jsstring \<Rightarrow> jsstring \<Rightarrow> nat option" where
  "indexOf0 pat [] = (if pat = [] then Some 0 else None)"
| "indexOf0 pat (c # cs) =
     (if prefix pat (c # cs) then Some 0 else map_option Suc (indexOf0 pat cs))"

text \<open>\<open>s.indexOf(pat, from)\<close>; \<open>None\<close> is \<open>-1\<close>.\<close>

definition indexOf :: "jsstring \<Rightarrow> jsstring \<Rightarrow> nat \<Rightarrow> nat option" where
  "indexOf s pat from =
     map_option (\<lambda>i. min from (length s) + i) (indexOf0 pat (drop from s))"

text \<open>\<^verbatim>\<open>while (pos < text.length && text[pos] === '\n') pos++;\<close>\<close>

definition skipNewlines :: "jsstring \<Rightarrow> nat \<Rightarrow> nat" where
  "skipNewlines text pos = pos + length (takeWhile (\<lambda>c. c = 0x0A) (drop pos text))"

text \<open>\<open>xs.join(sep)\<close>\<close>

fun join :: "jsstring \<Rightarrow> jsstring list \<Rightarrow> jsstring" where
  "join sep [] = []"
| "join sep [x] = x"
| "join sep (x # y # ys) = x @ sep @ join sep (y # ys)"

record ChunkerConfig =
  targetMinTokens :: int
  targetMaxTokens :: int
  hardMaxTokens :: int
  minPreferredTokens :: int
  overlapTokens :: int

definition DEFAULT_CHUNKER_CONFIG :: ChunkerConfig where
  "DEFAULT_CHUNKER_CONFIG =
     \<lparr>targetMinTokens = 600, targetMaxTokens = 1000, hardMaxTokens = 1200,
      minPreferredTokens = 200, overlapTokens = 100\<rparr>"

record FencedRegion =
  fr_startChar :: nat
  fr_endChar :: nat
  fr_language :: "jsstring option"

datatype HeadingNode =
  HeadingNode (nodeId: jsstring) (level: nat) (title: jsstring) (headingPath: jsstring)
    (startChar: nat) (endChar: nat) (children: "HeadingNode list")

text \<open>
  A chunk. The fields \<open>leafId\<close> and \<open>textHash\<close> of the source are SHA-256 digests (of
  \<open>docUri:startChar:endChar\<close> and of \<open>text\<close>); they are left out of the model.
\<close>

record Chunk =
  c_docUri :: jsstring
  c_nodeId :: jsstring
  c_headingPath :: jsstring
  c_startChar :: nat
  c_endChar :: nat
  c_text :: jsstring
  c_shardId :: nat
  c_tokenCount :: int

record Paragraph =
  p_text :: jsstring
  startOffset :: nat

text \<open>
  The chunker's constructor arguments: the configuration, the fence detector (its
  \<open>detect\<close> method) and the token counter.
\<close>

record Chunker =
  config :: ChunkerConfig
  detect :: "jsstring \<Rightarrow> FencedRegion list"
  tokenCounter :: "jsstring \<Rightarrow> int"

definition findContentStart :: "HeadingNode \<Rightarrow> jsstring \<Rightarrow> nat" where
  "findContentStart node text =
     (case indexOf text [0x0A] (startChar node) of
        None \<Rightarrow> endChar node
      | Some headingLineEnd \<Rightarrow> headingLineEnd + 1)"

text \<open>
  The \<open>while (pos < text.length)\<close> loop of \<open>splitIntoParagraphs\<close>. A fenced region
  that starts at \<open>pos\<close> and does not end after it leaves \<open>pos\<close> where it was, and the
  loop does not end: the function is partial, \<open>None\<close> when it does not return.
\<close>

partial_function (option) splitLoop ::
  "jsstring \<Rightarrow> FencedRegion list \<Rightarrow> nat \<Rightarrow> Paragraph list \<Rightarrow> Paragraph list option" where
  "splitLoop text fencedRegions pos paragraphs =
     (if pos < length text then
        (case find (\<lambda>r. fr_startChar r = pos) fencedRegions of
           Some fence \<Rightarrow>
             splitLoop text fencedRegions (skipNewlines text (fr_endChar fence))
               (paragraphs @
                 [\<lparr>p_text = slice text (fr_startChar fence) (fr_endChar fence),
                   startOffset = fr_startChar fence\<rparr>])
         | None \<Rightarrow>
             (case (case find (\<lambda>r. fr_startChar r > pos) fencedRegions of
                      Some nextFence \<Rightarrow>
                        (case indexOf text [0x0A, 0x0A] pos of
                           None \<Rightarrow> Some (fr_startChar nextFence)
                         | Some nextBreak \<Rightarrow>
                             if fr_startChar nextFence < nextBreak
                             then Some (fr_startChar nextFence) else Some nextBreak)
                    | None \<Rightarrow> indexOf text [0x0A, 0x0A] pos) of
                None \<Rightarrow>
                  Some (if trim (drop pos text) \<noteq> []
                        then paragraphs @ [\<lparr>p_text = drop pos text, startOffset = pos\<rparr>]
                        else paragraphs)
              | Some nextBreak \<Rightarrow>
                  splitLoop text fencedRegions (skipNewlines text nextBreak)
                    (if trim (slice text pos nextBreak) \<noteq> []
                     then paragraphs @
                            [\<lparr>p_text = slice text pos nextBreak, startOffset = pos\<rparr>]
                     else paragraphs)))
      else Some paragraphs)"

definition splitIntoParagraphs :: "jsstring \<Rightarrow> FencedRegion list \<Rightarrow> Paragraph list option" where
  "splitIntoParagraphs text fencedRegions = splitLoop text fencedRegions 0 []"

text \<open>
  \<open>createChunk\<close>. Both call sites pass a non-empty list (they are under
  \<open>currentParagraphs.length > 0\<close>).
\<close>

definition createChunk ::
  "Chunker \<Rightarrow> Paragraph list \<Rightarrow> jsstring \<Rightarrow> HeadingNode \<Rightarrow> nat \<Rightarrow> nat \<Rightarrow> Chunk" where
  "createChunk this paragraphs docUri node contentStart shardId =
     (let firstPara = hd paragraphs;
          lastPara = last paragraphs;
          startChar = contentStart + startOffset firstPara;
          endChar = contentStart + startOffset lastPara + length (p_text lastPara);
          text = join [0x0A, 0x0A] (map p_text paragraphs)
      in \<lparr>c_docUri = docUri, c_nodeId = nodeId node, c_headingPath = headingPath node,
          c_startChar = startChar, c_endChar = endChar, c_text = text,
          c_shardId = shardId, c_tokenCount = tokenCounter this text\<rparr>)"

text \<open>
  The \<open>for (const para of paragraphs)\<close> loop of \<open>accumulateChunks\<close> with its
  variables \<open>chunks\<close>, \<open>currentParagraphs\<close>, \<open>currentTokens\<close>, and the final push.
\<close>

fun accumulateLoop ::
  "Chunker \<Rightarrow> jsstring \<Rightarrow> HeadingNode \<Rightarrow> nat \<Rightarrow> nat \<Rightarrow>
   Chunk list \<Rightarrow> Paragraph list \<Rightarrow> int \<Rightarrow> Paragraph list \<Rightarrow> Chunk list" where
  "accumulateLoop this docUri node contentStart shardId chunks currentParagraphs currentTokens [] =
     (if length currentParagraphs > 0
      then chunks @ [createChunk this currentParagraphs docUri node contentStart shardId]
      else chunks)"
| "accumulateLoop this docUri node contentStart shardId chunks currentParagraphs currentTokens
     (para # rest) =
     (let paraTokens = tokenCounter this (p_text para) in
      if currentTokens + paraTokens > targetMaxTokens (config this) \<and>
         length currentParagraphs > 0
      then accumulateLoop this docUri node contentStart shardId
             (chunks @ [createChunk this currentParagraphs docUri node contentStart shardId])
             ([] @ [para]) (0 + paraTokens) rest
      else accumulateLoop this docUri node contentStart shardId
             chunks (currentParagraphs @ [para]) (currentTokens + paraTokens) rest)"

definition accumulateChunks ::
  "Chunker \<Rightarrow> Paragraph list \<Rightarrow> jsstring \<Rightarrow> HeadingNode \<Rightarrow> nat \<Rightarrow> nat \<Rightarrow> Chunk list" where
  "accumulateChunks this paragraphs docUri node contentStart shardId =
     (if length paragraphs = 0 then []
      else accumulateLoop this docUri node contentStart shardId [] [] 0 paragraphs)"

text \<open>\<open>chunkNode\<close>; \<open>None\<close> when \<open>splitIntoParagraphs\<close> does not return.\<close>

definition chunkNode ::
  "Chunker \<Rightarrow> jsstring \<Rightarrow> HeadingNode \<Rightarrow> jsstring \<Rightarrow> nat \<Rightarrow> Chunk list option" where
  "chunkNode this docUri node normalizedText shardId =
     (let contentStart = findContentStart node normalizedText;
          contentEnd = (case children node of
                          [] \<Rightarrow> endChar node
                        | child # _ \<Rightarrow> startChar child)
      in if contentStart \<ge> contentEnd then Some []
         else
           let nodeText = slice normalizedText contentStart contentEnd in
           if length (trim nodeText) = 0 then Some []
           else
             let fencedRegions = detect this nodeText in
             case splitIntoParagraphs nodeText fencedRegions of
               None \<Rightarrow> None
             | Some paragraphs \<Rightarrow>
                 Some (accumulateChunks this paragraphs docUri node contentStart shardId))"

text \<open>
  The runs of paragraphs that \<open>accumulateChunks\<close> turns into chunks: the same loop,
  collecting \<open>currentParagraphs\<close> instead of the chunk made from it.
\<close>

fun paragraphGroups ::
  "Chunker \<Rightarrow> Paragraph list list \<Rightarrow> Paragraph list \<Rightarrow> int \<Rightarrow> Paragraph list \<Rightarrow>
   Paragraph list list" where
  "paragraphGroups this groups currentParagraphs currentTokens [] =
     (if length currentParagraphs > 0 then groups @ [currentParagraphs] else groups)"
| "paragraphGroups this groups currentParagraphs currentTokens (para # rest) =
     (let paraTokens = tokenCounter this (p_text para) in
      if currentTokens + paraTokens > targetMaxTokens (config this) \<and>
         length currentParagraphs > 0
      then paragraphGroups this (groups @ [currentParagraphs]) [para] paraTokens rest
      else paragraphGroups this groups (currentParagraphs @ [para])
             (currentTokens + paraTokens) rest)"

text \<open>
  A chunker for concrete runs: the token counter of the chunker's test suite
  (\<open>Math.ceil(text.length / 4)\<close>) and a fence detector that finds no fence, which is
  what \<open>FenceDetector.detect\<close> returns on a text without backticks and tildes.
\<close>

definition simpleTokenCounter :: "jsstring \<Rightarrow> int" where
  "simpleTokenCounter text = (int (length text) + 3) div 4"

definition testChunker :: "ChunkerConfig \<Rightarrow> Chunker" where
  "testChunker cfg = \<lparr>config = cfg, detect = (\<lambda>text. []), tokenCounter = simpleTokenCounter\<rparr>"

section \<open>SnapshotManager (lifecycle/snapshot-manager.ts)\<close>

datatype SnapshotState = building | active | inactive

text \<open>
  The content of a snapshot's \<open>meta.json\<close>. Its \<open>id\<close> field is not stored in the
  model: \<open>writeMeta(id, meta)\<close> is the only writer of the file and both its callers
  pass a \<open>meta\<close> whose \<open>id\<close> is the directory's name.
\<close>

record SnapshotMeta =
  sm_state :: SnapshotState
  sm_createdAt :: int

text \<open>
  \<open>SnapshotInfo\<close>; its \<open>path\<close> is the snapshot's directory, determined by the id.
\<close>

record SnapshotInfo =
  si_id :: jsstring
  si_state :: SnapshotState
  si_createdAt :: int

text \<open>
  The state the manager works on is the \<open>snapshots\<close> directory: its subdirectories
  that hold a \<open>meta.json\<close>, by name, in the order \<open>readdirSync\<close> lists them.
  \<open>writeMeta\<close> writes one file (\<open>writeFileSync\<close>), \<open>rmSync\<close> removes one
  directory.
\<close>

type_synonym snapshots_dir = "(jsstring \<times> SnapshotMeta) list"

definition writeMeta :: "jsstring \<Rightarrow> SnapshotMeta \<Rightarrow> snapshots_dir \<Rightarrow> snapshots_dir" where
  "writeMeta id' meta fs = Map_set id' meta fs"

definition rmSync :: "jsstring \<Rightarrow> snapshots_dir \<Rightarrow> snapshots_dir" where
  "rmSync id' fs = filter (\<lambda>entry. fst entry \<noteq> id') fs"

definition getSnapshotInfo :: "snapshots_dir \<Rightarrow> jsstring \<Rightarrow> SnapshotInfo option" where
  "getSnapshotInfo fs id' =
     (case map_of fs id' of
        None \<Rightarrow> None
      | Some meta \<Rightarrow>
          Some \<lparr>si_id = id', si_state = sm_state meta, si_createdAt = sm_createdAt meta\<rparr>)"

text \<open>
  \<open>createSnapshot\<close>; the id (from \<open>Date.now()\<close> and four random bytes) and the
  creation time are inputs.
\<close>

definition createSnapshot :: "jsstring \<Rightarrow> int \<Rightarrow> snapshots_dir \<Rightarrow> snapshots_dir" where
  "createSnapshot id' now fs = writeMeta id' \<lparr>sm_state = building, sm_createdAt = now\<rparr> fs"

definition listSnapshots :: "snapshots_dir \<Rightarrow> SnapshotInfo list" where
  "listSnapshots fs =
     js_sort (\<lambda>a b. Fin (real_of_int (si_createdAt b - si_createdAt a)))
       (List.map_filter (\<lambda>entry. getSnapshotInfo fs (fst entry)) fs)"

definition getActiveSnapshot :: "snapshots_dir \<Rightarrow> SnapshotInfo option" where
  "getActiveSnapshot fs = find (\<lambda>s. si_state s = active) (listSnapshots fs)"

definition updateState :: "jsstring \<Rightarrow> SnapshotState \<Rightarrow> snapshots_dir \<Rightarrow> snapshots_dir" where
  "updateState id' st fs =
     (case getSnapshotInfo fs id' of
        None \<Rightarrow> fs
      | Some info \<Rightarrow> writeMeta id' \<lparr>sm_state = st, sm_createdAt = si_createdAt info\<rparr> fs)"

text \<open>
  \<open>activateSnapshot\<close> makes up to two writes. \<open>deactivateCurrent\<close> is its first part,
  \<^verbatim>\<open>
  const current = this.getActiveSnapshot();
  if (current && current.id !== id) this.updateState(current.id, 'inactive');
  \<close>
  and gives the directory as it is before the second write,
  \<open>this.updateState(id, 'active')\<close>.
\<close>

definition deactivateCurrent :: "jsstring \<Rightarrow> snapshots_dir \<Rightarrow> snapshots_dir" where
  "deactivateCurrent id' fs =
     (case getActiveSnapshot fs of
        None \<Rightarrow> fs
      | Some current \<Rightarrow>
          if si_id current \<noteq> id' then updateState (si_id current) inactive fs else fs)"

definition activateSnapshot :: "jsstring \<Rightarrow> snapshots_dir \<Rightarrow> error + snapshots_dir" where
  "activateSnapshot id' fs =
     (case getSnapshotInfo fs id' of
        None \<Rightarrow> Inl SnapshotNotFound
      | Some info \<Rightarrow> Inr (updateState id' active (deactivateCurrent id' fs)))"

definition deleteSnapshot :: "jsstring \<Rightarrow> snapshots_dir \<Rightarrow> error + snapshots_dir" where
  "deleteSnapshot id' fs =
     (case getSnapshotInfo fs id' of
        None \<Rightarrow> Inr fs
      | Some info \<Rightarrow>
          if si_state info = active then Inl CannotDeleteActiveSnapshot
          else Inr (rmSync id' fs))"

text \<open>
  The loop of \<open>cleanupOldSnapshots\<close>. When \<open>deleteSnapshot\<close> throws, the exception
  leaves the loop; the result is the directory as it is then, with the error.
\<close>

fun cleanupLoop ::
  "jsstring option \<Rightarrow> int \<Rightarrow> int \<Rightarrow> snapshots_dir \<Rightarrow> SnapshotInfo list \<Rightarrow>
   snapshots_dir \<times> error option" where
  "cleanupLoop activeId keepCount kept fs [] = (fs, None)"
| "cleanupLoop activeId keepCount kept fs (snapshot # rest) =
     (if Some (si_id snapshot) = activeId then cleanupLoop activeId keepCount kept fs rest
      else if kept < keepCount then cleanupLoop activeId keepCount (kept + 1) fs rest
      else
        (case deleteSnapshot (si_id snapshot) fs of
           Inl e \<Rightarrow> (fs, Some e)
         | Inr fs' \<Rightarrow> cleanupLoop activeId keepCount kept fs' rest))"

definition cleanupOldSnapshots :: "int \<Rightarrow> snapshots_dir \<Rightarrow> snapshots_dir \<times> error option" where
  "cleanupOldSnapshots keepCount fs =
     (let snapshots = listSnapshots fs;
          activeId = map_option si_id (getActiveSnapshot fs)
      in cleanupLoop activeId keepCount 0 fs snapshots)"

text \<open>
  \<open>rollback\<close>: \<open>findIndex\<close> of the active snapshot in the list, newest first, and
  activation of the next one.
\<close>

fun findIndex :: "('a \<Rightarrow> bool) \<Rightarrow> 'a list \<Rightarrow> nat option" where
  "findIndex P [] = None"
| "findIndex P (x # xs) = (if P x then Some 0 else map_option Suc (findIndex P xs))"

definition rollback :: "snapshots_dir \<Rightarrow> error + snapshots_dir" where
  "rollback fs =
     (let snapshots = listSnapshots fs in
      case findIndex (\<lambda>s. si_state s = active) snapshots of
        None \<Rightarrow> Inl NoPreviousSnapshot
      | Some activeIdx \<Rightarrow>
          if activeIdx + 1 \<ge> length snapshots then Inl NoPreviousSnapshot
          else activateSnapshot (si_id (snapshots ! (activeIdx + 1))) fs)"

text \<open>
  The directories the manager's operations lead to from the empty directory. A failed
  operation leaves the directory as it was, except \<open>cleanupOldSnapshots\<close>, whose
  deletions before the failure remain.
\<close>

inductive_set reachable :: "snapshots_dir set" where
  empty: "[] \<in> reachable"
| create: "fs \<in> reachable \<Longrightarrow> createSnapshot id' now fs \<in> reachable"
| activate: "fs \<in> reachable \<Longrightarrow> activateSnapshot id' fs = Inr fs' \<Longrightarrow> fs' \<in> reachable"
| delete: "fs \<in> reachable \<Longrightarrow> deleteSnapshot id' fs = Inr fs' \<Longrightarrow> fs' \<in> reachable"
| cleanup: "fs \<in> reachable \<Longrightarrow> fst (cleanupOldSnapshots keepCount fs) \<in> reachable"
| rollback: "fs \<in> reachable \<Longrightarrow> rollback fs = Inr fs' \<Longrightarrow> fs' \<in> reachable"

text \<open>The names of the snapshots whose \<open>meta.json\<close> says \<open>active\<close>.\<close>

definition activeIds :: "snapshots_dir \<Rightarrow> jsstring list" where
  "activeIds fs = map fst (filter (\<lambda>entry. sm_state (snd entry) = active) fs)"

text \<open>
  The invariant of the directory: no two entries for one name, and at most one snapshot
  marked active.
\<close>

definition atMostOneActive :: "snapshots_dir \<Rightarrow> bool" where
  "atMostOneActive fs \<longleftrightarrow>
     distinct (map fst fs) \<and> length (activeIds fs) \<le> 1"

text \<open>
  A directory for concrete runs: snapshot \<open>a\<close>, created at time 1 and active, and
  snapshot \<open>b\<close>, created at time 2 and inactive.
\<close>

definition twoSnapshots :: snapshots_dir where
  "twoSnapshots =
     [([0x61], \<lparr>sm_state = active, sm_createdAt = 1\<rparr>),
      ([0x62], \<lparr>sm_state = inactive, sm_createdAt = 2\<rparr>)]"

section \<open>MsrlEngine: the field currentSnapshot (engine.ts)\<close>






section \<open>MetadataStore.upsertDoc (store/metadata-store.ts)\<close>

text \<open>
  The \<open>docs\<close> table: \<open>doc_id INTEGER PRIMARY KEY AUTOINCREMENT\<close>, \<open>doc_uri TEXT NOT
  NULL UNIQUE\<close>, \<open>mtime REAL\<close>, \<open>size INTEGER\<close>, \<open>hash TEXT\<close>.
\<close>

record DocRow =
  dr_docId :: int
  dr_docUri :: jsstring
  dr_mtime :: real
  dr_size :: int
  dr_hash :: jsstring

text \<open>The argument of \<open>upsertDoc\<close>.\<close>

record Doc =
  d_docUri :: jsstring
  d_mtime :: real
  d_size :: int
  d_hash :: jsstring

text \<open>
  The database as far as \<open>upsertDoc\<close> touches it: the rows of \<open>docs\<close>, the
  \<open>AUTOINCREMENT\<close> counter of the table (the largest row id ever taken from it), and the
  connection's last insert row id.
\<close>

record Database =
  docs :: "DocRow list"
  docs_sequence :: int
  lastInsertRowid :: int

text \<open>
  \<^verbatim>\<open>
  INSERT INTO docs (doc_uri, mtime, size, hash) VALUES (?, ?, ?, ?)
  ON CONFLICT(doc_uri) DO UPDATE SET
    mtime = excluded.mtime, size = excluded.size, hash = excluded.hash
  \<close>
  A row with the same \<open>doc_uri\<close> is updated in place; otherwise a row is inserted under
  the next row id. SQLite takes the next row id from the counter before it finds the
  conflict, so the counter advances on both paths; the connection's last insert row id
  changes only when a row is inserted. The method returns \<open>result.lastInsertRowid\<close>.
\<close>

definition upsertDoc :: "Doc \<Rightarrow> Database \<Rightarrow> int \<times> Database" where
  "upsertDoc doc db =
     (if d_docUri doc \<in> set (map dr_docUri (docs db)) then
        let db' = db\<lparr>docs := map (\<lambda>row.
                      if dr_docUri row = d_docUri doc
                      then row\<lparr>dr_mtime := d_mtime doc, dr_size := d_size doc,
                               dr_hash := d_hash doc\<rparr>
                      else row) (docs db),
                    docs_sequence := docs_sequence db + 1\<rparr>
        in (lastInsertRowid db', db')
      else
        let rowid = docs_sequence db + 1;
            db' = db\<lparr>docs := docs db @
                      [\<lparr>dr_docId = rowid, dr_docUri = d_docUri doc, dr_mtime = d_mtime doc,
                        dr_size = d_size doc, dr_hash = d_hash doc\<rparr>],
                    docs_sequence := rowid, lastInsertRowid := rowid\<rparr>
        in (lastInsertRowid db', db'))"

text \<open>The rows of \<open>docs\<close> for one \<open>doc_uri\<close>.\<close>

definition rowsFor :: "jsstring \<Rightarrow> Database \<Rightarrow> DocRow list" where
  "rowsFor uri db = filter (\<lambda>row. dr_docUri row = uri) (docs db)"

text \<open>A database for concrete runs: empty, no row id given yet.\<close>

definition emptyDatabase :: Database where
  "emptyDatabase = \<lparr>docs = [], docs_sequence = 0, lastInsertRowid = 0\<rparr>"

section \<open>Concrete dependencies for runs of the pipeline\<close>

text \<open>
  The mocks of the pipeline's test suite: both searches resolve to no candidates, every
  leaf has the same metadata, the excerpt is a fixed text. The heading path is
  \<open>"Q1 \<rightarrow> Milestone: Launch"\<close> and the document \<open>"test.md"\<close>.
\<close>

definition mockMetadata :: LeafMetadata where
  "mockMetadata =
     \<lparr>md_docUri = [0x74, 0x65, 0x73, 0x74, 0x2E, 0x6D, 0x64],
      md_headingPath = [0x51, 0x31, 0x20, 0x2192, 0x20, 0x4D, 0x69, 0x6C, 0x65, 0x73, 0x74,
                        0x6F, 0x6E, 0x65, 0x3A, 0x20, 0x4C, 0x61, 0x75, 0x6E, 0x63, 0x68],
      md_startChar = 0, md_endChar = 100\<rparr>"

definition mockDeps :: PipelineDependencies where
  "mockDeps =
     \<lparr>vectorSearch = (\<lambda>q n. Inr []),
      bm25Search = (\<lambda>q n. Inr []),
      getLeafMetadata = (\<lambda>leafId. Inr (Some mockMetadata)),
      extractExcerpt = (\<lambda>docUri s e.
         Inr \<lparr>ex_excerpt = [0x74, 0x65, 0x73, 0x74], ex_truncated = False\<rparr>)\<rparr>"







text \<open>
  The candidates of the specification's fusion scenario: \<open>l1\<close> and \<open>l2\<close> with vector
  scores 0.5 and 0.9 and BM25 scores 0.9 and 0.1.
\<close>

definition scenarioVector :: "VectorResult list" where
  "scenarioVector =
     [\<lparr>vr_leafId = [0x6C, 0x31], vr_vectorScore = Fin 0.5\<rparr>,
      \<lparr>vr_leafId = [0x6C, 0x32], vr_vectorScore = runRounding 0.9\<rparr>]"

definition scenarioBM25 :: "BM25Result list" where
  "scenarioBM25 =
     [\<lparr>br_leafId = [0x6C, 0x31], br_bm25Score = runRounding 0.9, br_cachedVectorScore = None\<rparr>,
      \<lparr>br_leafId = [0x6C, 0x32], br_bm25Score = runRounding 0.1, br_cachedVectorScore = None\<rparr>]"



section \<open>Properties of the shard router\<close>

lemma ascii_not_surrogate:
  "c < (0x80 :: codeunit) \<Longrightarrow> \<not> is_high_surrogate c \<and> \<not> is_low_surrogate c"
  by (simp add: is_high_surrogate_def is_low_surrogate_def word_less_nat_alt)

lemma utf8_codepoint_ascii:
  "c < (0x80 :: codeunit) \<Longrightarrow> utf8_codepoint (unat c) = [ucast c]"
  by (simp add: utf8_codepoint_def word_less_nat_alt)

lemma spec_utf8_ascii:
  "list_all (\<lambda>c. c < 0x80) s \<Longrightarrow> spec_utf8 s = map ucast s"
  by (induction s rule: spec_utf8.induct)
     (simp_all add: ascii_not_surrogate utf8_codepoint_ascii)

lemma ucast_byte_ascii:
  assumes "c < (0x80 :: codeunit)"
  shows "(ucast (ucast c :: 8 word) :: 32 word) = ucast c"
proof -
  have "unat (ucast c :: 8 word) = unat c"
    using assms by (simp add: unsigned_ucast_eq word_less_nat_alt take_bit_nat_eq_self_iff)
  then show ?thesis
    by (metis of_nat_unat)
qed

lemma spec_FNV1a32_loop_ascii:
  "list_all (\<lambda>c. c < 0x80) s \<Longrightarrow>
   spec_FNV1a32_loop h (map ucast s) = fnv1a32_loop h s"
  by (induction s arbitrary: h) (simp_all add: ucast_byte_ascii)

text \<open>
  C6 (as amended). The shard id is the FNV-1a fold over the UTF-16 code units of the URI,
  modulo the shard count. For a URI of ASCII characters only (every code unit below
  0x80) and a positive shard count this is the 32-bit FNV-1a hash of the URI's UTF-8
  bytes modulo the shard count, as the specification has it, and it lies below the shard
  count.
\<close>

theorem getShardId_ascii_utf8:
  assumes "list_all (\<lambda>c. c < 0x80) docUri" and "0 < shardCount"
  shows "getShardId shardCount docUri = Some (spec_FNV1a32 (spec_utf8 docUri) mod shardCount)
       \<and> getShardId shardCount docUri = spec_shardId shardCount docUri
       \<and> spec_FNV1a32 (spec_utf8 docUri) mod shardCount < shardCount"
proof -
  have "spec_FNV1a32 (spec_utf8 docUri) = fnv1a32 docUri"
    using assms(1)
    by (simp add: spec_FNV1a32_def fnv1a32_def spec_utf8_ascii spec_FNV1a32_loop_ascii)
  then show ?thesis
    using assms(2) by (simp add: getShardId_def spec_shardId_def)
qed

text \<open>Witness: the URI \<open>"t.md"\<close> with 128 shards.\<close>

theorem getShardId_ascii_utf8_witness:
  "list_all (\<lambda>c. c < 0x80) [0x74, 0x2E, 0x6D, 0x64 :: codeunit] \<and> (0::nat) < 128 \<and>
   getShardId 128 [0x74, 0x2E, 0x6D, 0x64] =
     Some (spec_FNV1a32 (spec_utf8 [0x74, 0x2E, 0x6D, 0x64]) mod 128)"
proof -
  have a: "list_all (\<lambda>c. c < 0x80) [0x74, 0x2E, 0x6D, 0x64 :: codeunit]"
    by simp
  have b: "(0::nat) < 128"
    by simp
  show ?thesis
    using a b getShardId_ascii_utf8 [OF a b] by blast
qed

text \<open>
  C6 as stated fails on a non-ASCII URI: for the one-character URI U+00E9 (e with acute
  accent: one code unit 0xE9, UTF-8 bytes C3 A9) the code assigns shard 68 of 128, and
  FNV-1a over the UTF-8 bytes gives shard 65.
\<close>

theorem getShardId_utf8_counterexample:
  "getShardId 128 [0xE9] = Some 68 \<and> spec_shardId 128 [0xE9] = Some 65 \<and>
   getShardId 128 [0xE9] \<noteq> spec_shardId 128 [0xE9]"
  by (simp add: getShardId_def fnv1a32_def spec_shardId_def spec_FNV1a32_def
      is_high_surrogate_def is_low_surrogate_def utf8_codepoint_def)

section \<open>Properties of the numbers\<close>








section \<open>Properties of the sort, the map and the set\<close>

lemma set_js_insort: "set (js_insort cmp x ys) = insert x (set ys)"
  by (induction ys) auto

lemma set_js_sort: "set (js_sort cmp xs) = set xs"
  by (induction xs) (simp_all add: js_sort_def set_js_insort)

lemma distinct_map_js_insort:
  "distinct (map f (js_insort cmp x ys)) \<longleftrightarrow> f x \<notin> f ` set ys \<and> distinct (map f ys)"
  by (induction ys) (auto simp: set_js_insort)

lemma distinct_map_js_sort:
  "distinct (map f (js_sort cmp xs)) \<longleftrightarrow> distinct (map f xs)"
  by (induction xs)
     (simp_all add: js_sort_def distinct_map_js_insort set_js_sort [unfolded js_sort_def])



lemma keys_Map_set: "fst ` set (Map_set k v m) = insert k (fst ` set m)"
  by (induction m) auto

lemma keys_foldl_Map_set:
  "fst ` set (foldl (\<lambda>m r. Map_set (kf r) (vf r) m) m0 rs) = fst ` set m0 \<union> kf ` set rs"
  by (induction rs arbitrary: m0) (auto simp: keys_Map_set)

lemma map_of_Map_set: "map_of (Map_set k v m) = (map_of m)(k \<mapsto> v)"
  by (induction m) auto

lemma find_append_case:
  "find P (xs @ ys) = (case find P xs of Some x \<Rightarrow> Some x | None \<Rightarrow> find P ys)"
  by (induction xs) auto

lemma map_of_foldl_Map_set:
  "map_of (foldl (\<lambda>m r. Map_set (kf r) (vf r) m) m0 rs) k =
     (case find (\<lambda>r. kf r = k) (rev rs) of Some r \<Rightarrow> Some (vf r) | None \<Rightarrow> map_of m0 k)"
proof (induction rs arbitrary: m0)
  case Nil
  then show ?case by simp
next
  case (Cons r rs)
  show ?case
    by (simp add: Cons.IH map_of_Map_set find_append_case split: option.splits)
qed

lemma set_foldl_Set_add:
  "set (foldl (\<lambda>s x. Set_add x s) s xs) = set s \<union> set xs"
  by (induction xs arbitrary: s) (auto simp: Set_add_def)

lemma distinct_foldl_Set_add:
  "distinct s \<Longrightarrow> distinct (foldl (\<lambda>s x. Set_add x s) s xs)"
  by (induction xs arbitrary: s) (auto simp: Set_add_def)


section \<open>Properties of the hybrid scorer\<close>

lemma Map_get_vectorMap:
  "Map_get (fuse_vectorMap vs) k = map_option vr_vectorScore (spec_vectorCandidate vs k)"
  by (simp add: Map_get_def fuse_vectorMap_def spec_vectorCandidate_def map_of_foldl_Map_set
      split: option.splits)

lemma Map_get_bm25Map:
  "Map_get (fuse_bm25Map bs) k =
     map_option (\<lambda>r. (br_bm25Score r, br_cachedVectorScore r)) (spec_bm25Candidate bs k)"
  by (simp add: Map_get_def fuse_bm25Map_def spec_bm25Candidate_def map_of_foldl_Map_set
      split: option.splits)

lemma fuse_result_spec:
  "fuse_result rnd w (fuse_vectorMap vs) (fuse_bm25Map bs) k = spec_fused rnd w vs bs k"
  by (simp add: fuse_result_def spec_fused_def spec_v_def spec_b_def Let_def
      Map_get_vectorMap Map_get_bm25Map split: option.splits)

lemma fuse_result_spec_fun:
  "fuse_result rnd w (fuse_vectorMap vs) (fuse_bm25Map bs) = spec_fused rnd w vs bs"
  by (rule ext) (rule fuse_result_spec)

lemma hr_leafId_spec_fused: "hr_leafId (spec_fused rnd w vs bs k) = k"
  by (simp add: spec_fused_def)

lemma allLeafIds:
  "set (new_Set (map fst (fuse_vectorMap vs) @ map fst (fuse_bm25Map bs))) = candidateIds vs bs"
  "distinct (new_Set (map fst (fuse_vectorMap vs) @ map fst (fuse_bm25Map bs)))"
  by (simp_all add: new_Set_def set_foldl_Set_add distinct_foldl_Set_add fuse_vectorMap_def
      fuse_bm25Map_def keys_foldl_Map_set candidateIds_def)

lemma fuse_spec:
  "fuse rnd lc w vs bs =
     js_sort (fuse_compare rnd lc)
       (map (spec_fused rnd w vs bs)
          (new_Set (map fst (fuse_vectorMap vs) @ map fst (fuse_bm25Map bs))))"
  by (simp add: fuse_def Let_def fuse_result_spec_fun)

lemma set_fuse: "set (fuse rnd lc w vs bs) = spec_fused rnd w vs bs ` candidateIds vs bs"
  by (simp add: fuse_spec set_js_sort allLeafIds)

lemma distinct_fuse: "distinct (map hr_leafId (fuse rnd lc w vs bs))"
  by (simp add: fuse_spec distinct_map_js_sort comp_def hr_leafId_spec_fused allLeafIds)






lemma runRounding_error:
  "case runRounding x of Fin y \<Rightarrow> \<bar>y - x\<bar> \<le> 1 / 10 ^ 15 | _ \<Rightarrow> False"
  by (simp add: runRounding_def)

lemma runRounding_accurate: "accurate_rounding runRounding"
  unfolding accurate_rounding_def
proof (intro allI impI)
  fix x :: real
  show "\<exists>y. runRounding x = Fin y \<and> \<bar>y - x\<bar> \<le> 1 / 10 ^ 15"
    using runRounding_error [of x] by (cases "runRounding x") simp_all
qed

lemma accurate_roundingD:
  assumes "accurate_rounding rnd" and "\<bar>x\<bar> \<le> 2"
  obtains y where "rnd x = Fin y" and "\<bar>y - x\<bar> \<le> 1 / 10 ^ 15"
  using assms unfolding accurate_rounding_def by blast

lemma new_HybridScorer_default:
  assumes "accurate_rounding rnd"
  shows "new_HybridScorer rnd None = Inr (DEFAULT_HYBRID_WEIGHTS rnd)"
proof -
  define e :: real where "e = 1 / 10 ^ 15"
  have e: "0 \<le> e" "e \<le> 1 / 10000" by (simp_all add: e_def)
  note acc = accurate_roundingD [OF assms, folded e_def]
  obtain a where a: "rnd (7 / 10) = Fin a" "\<bar>a - 7 / 10\<bar> \<le> e"
    by (rule acc [of "7 / 10"]) simp_all
  obtain b where b: "rnd (3 / 10) = Fin b" "\<bar>b - 3 / 10\<bar> \<le> e"
    by (rule acc [of "3 / 10"]) simp_all
  obtain u where u: "rnd (1 / 1000) = Fin u" "\<bar>u - 1 / 1000\<bar> \<le> e"
    by (rule acc [of "1 / 1000"]) simp_all
  have "\<bar>a + b\<bar> \<le> 2" using a(2) b(2) e by linarith
  then obtain s where s: "rnd (a + b) = Fin s" "\<bar>s - (a + b)\<bar> \<le> e"
    by (rule acc [of "a + b"])
  have "\<bar>s - 1\<bar> \<le> 2" using a(2) b(2) s(2) e by linarith
  then obtain t where t: "rnd (s - 1) = Fin t" "\<bar>t - (s - 1)\<bar> \<le> e"
    by (rule acc [of "s - 1"])
  have "\<not> u < \<bar>t\<bar>" using a(2) b(2) s(2) t(2) u(2) e by linarith
  then show ?thesis
    by (simp add: new_HybridScorer_def DEFAULT_HYBRID_WEIGHTS_def Let_def a(1) b(1) s(1) t(1) u(1)
        num_sub_def)
qed

lemma default_score_close:
  assumes "accurate_rounding rnd" and "0 \<le> v" and "v \<le> 1" and "0 \<le> b" and "b \<le> 1"
  shows "\<exists>s. num_add rnd (num_mul rnd (rnd (7 / 10)) (Fin v)) (num_mul rnd (rnd (3 / 10)) (Fin b))
               = Fin s
             \<and> \<bar>s - (7 / 10 * v + 3 / 10 * b)\<bar> \<le> 5 / 10 ^ 15"
proof -
  define e :: real where "e = 1 / 10 ^ 15"
  have e: "0 \<le> e" "e \<le> 1 / 10000" by (simp_all add: e_def)
  note acc = accurate_roundingD [OF assms(1), folded e_def]
  obtain wv where wv: "rnd (7 / 10) = Fin wv" "\<bar>wv - 7 / 10\<bar> \<le> e"
    by (rule acc [of "7 / 10"]) simp_all
  obtain wb where wb: "rnd (3 / 10) = Fin wb" "\<bar>wb - 3 / 10\<bar> \<le> e"
    by (rule acc [of "3 / 10"]) simp_all
  have v1: "\<bar>wv * v - 7 / 10 * v\<bar> \<le> e"
  proof -
    have "wv * v - 7 / 10 * v = (wv - 7 / 10) * v" by (simp add: algebra_simps)
    then have "\<bar>wv * v - 7 / 10 * v\<bar> = \<bar>wv - 7 / 10\<bar> * v"
      using assms(2) by (simp only: abs_mult abs_of_nonneg)
    also have "\<dots> \<le> e * 1"
      using wv(2) assms(2,3) e by (intro mult_mono) auto
    finally show ?thesis by simp
  qed
  have b1: "\<bar>wb * b - 3 / 10 * b\<bar> \<le> e"
  proof -
    have "wb * b - 3 / 10 * b = (wb - 3 / 10) * b" by (simp add: algebra_simps)
    then have "\<bar>wb * b - 3 / 10 * b\<bar> = \<bar>wb - 3 / 10\<bar> * b"
      using assms(4) by (simp only: abs_mult abs_of_nonneg)
    also have "\<dots> \<le> e * 1"
      using wb(2) assms(4,5) e by (intro mult_mono) auto
    finally show ?thesis by simp
  qed
  have "\<bar>wv * v\<bar> \<le> 2" using v1 assms(2,3) e by linarith
  then obtain p where p: "rnd (wv * v) = Fin p" "\<bar>p - wv * v\<bar> \<le> e"
    by (rule acc [of "wv * v"])
  have "\<bar>wb * b\<bar> \<le> 2" using b1 assms(4,5) e by linarith
  then obtain q where q: "rnd (wb * b) = Fin q" "\<bar>q - wb * b\<bar> \<le> e"
    by (rule acc [of "wb * b"])
  have "\<bar>p + q\<bar> \<le> 2" using p(2) q(2) v1 b1 assms(2-5) e by linarith
  then obtain s where s: "rnd (p + q) = Fin s" "\<bar>s - (p + q)\<bar> \<le> e"
    by (rule acc [of "p + q"])
  have "\<bar>s - (7 / 10 * v + 3 / 10 * b)\<bar> \<le> 5 * e"
    using p(2) q(2) v1 b1 s(2) by linarith
  then have "\<bar>s - (7 / 10 * v + 3 / 10 * b)\<bar> \<le> 5 / 10 ^ 15"
    by (simp add: e_def)
  then show ?thesis
    using wv(1) wb(1) p(1) q(1) s(1) by simp
qed

text \<open>
  The constructor's check in doubles: the weights 0.999 and 0 are rejected, because the
  double of 0.999 is farther from 1 than the double of 0.001 is from 0.
\<close>

lemma new_HybridScorer_threshold:
  "new_HybridScorer runRounding (Some \<lparr>w_vector = runRounding 0.999, w_bm25 = Fin 0\<rparr>) =
     Inl WeightsMustSumToOne"
  by (simp add: new_HybridScorer_def Let_def num_sub_def runRounding_def)

lemma new_RetrievalPipeline_default:
  "accurate_rounding rnd \<Longrightarrow>
   new_RetrievalPipeline rnd d = Inr \<lparr>deps = d, hybridScorer = DEFAULT_HYBRID_WEIGHTS rnd\<rparr>"
  by (simp add: new_RetrievalPipeline_def new_HybridScorer_default)

lemmas fuse_eval =
  fuse_def Let_def fuse_vectorMap_def fuse_bm25Map_def new_Set_def Set_add_def
  js_sort_def fuse_result_def Map_get_def DEFAULT_HYBRID_WEIGHTS_def fuse_compare_def
  num_neq_def num_sub_def runRounding_def

lemma fuse_single_vector:
  "fuse runRounding codeUnitCompare (DEFAULT_HYBRID_WEIGHTS runRounding)
     [\<lparr>vr_leafId = [0x6C, 0x31], vr_vectorScore = Fin 1\<rparr>] [] =
   [\<lparr>hr_leafId = [0x6C, 0x31], hr_score = Fin (3152519739159347 / 4503599627370496),
     hr_vectorScore = Fin 1, hr_bm25Score = Fin 0\<rparr>]"
  by (simp add: fuse_eval)

lemma fuse_scenario:
  "fuse runRounding codeUnitCompare (DEFAULT_HYBRID_WEIGHTS runRounding)
     scenarioVector scenarioBM25 =
   [\<lparr>hr_leafId = [0x6C, 0x32], hr_score = Fin (5944751508129055 / 9007199254740992),
     hr_vectorScore = Fin (8106479329266893 / 9007199254740992),
     hr_bm25Score = Fin (3602879701896397 / 36028797018963968)\<rparr>,
    \<lparr>hr_leafId = [0x6C, 0x31], hr_score = Fin (5584463537939415 / 9007199254740992),
     hr_vectorScore = Fin (1 / 2),
     hr_bm25Score = Fin (8106479329266893 / 9007199254740992)\<rparr>]"
  by (simp add: fuse_eval scenarioVector_def scenarioBM25_def)








text \<open>
  C2 (as amended). The retrieval pipeline constructs its hybrid scorer without weights,
  so the scorer holds the default weights, the doubles of 0.7 and 0.3. For all candidate
  lists the results of \<open>fuse\<close> with these weights are the specification's fused
  candidates with them, one per leaf id of the two lists: the vector score is the
  candidate's, else the cached one, else 0; the BM25 score is the candidate's, else 0;
  the score is 0.7 times the vector score plus 0.3 times the BM25 score in the
  arithmetic of doubles, that is with both products and the sum rounded. For two
  scores between 0 and 1 this score is a finite number within \<open>5e-15\<close> of
  \<open>0.7 \<cdot> v + 0.3 \<cdot> b\<close>. The rounding is assumed accurate to \<open>1e-15\<close> on results of
  magnitude up to 2, as IEEE 754 doubles are.
\<close>

theorem fuse_default_weights:
  assumes "accurate_rounding rnd"
  shows "new_RetrievalPipeline rnd d =
           Inr \<lparr>deps = d, hybridScorer = \<lparr>w_vector = rnd 0.7, w_bm25 = rnd 0.3\<rparr>\<rparr>
       \<and> set (fuse rnd localeCompare \<lparr>w_vector = rnd 0.7, w_bm25 = rnd 0.3\<rparr>
                 vectorResults bm25Results) =
           spec_fused rnd \<lparr>w_vector = rnd 0.7, w_bm25 = rnd 0.3\<rparr> vectorResults bm25Results `
             candidateIds vectorResults bm25Results
       \<and> distinct (map hr_leafId
            (fuse rnd localeCompare \<lparr>w_vector = rnd 0.7, w_bm25 = rnd 0.3\<rparr>
               vectorResults bm25Results))
       \<and> (\<forall>k v b.
             spec_v vectorResults bm25Results k = Fin v \<and> spec_b bm25Results k = Fin b \<and>
             0 \<le> v \<and> v \<le> 1 \<and> 0 \<le> b \<and> b \<le> 1 \<longrightarrow>
             (\<exists>s. hr_score (spec_fused rnd \<lparr>w_vector = rnd 0.7, w_bm25 = rnd 0.3\<rparr>
                               vectorResults bm25Results k) = Fin s \<and>
                  \<bar>s - (0.7 * v + 0.3 * b)\<bar> \<le> 5 / 10 ^ 15))"
proof -
  have a: "new_RetrievalPipeline rnd d =
           Inr \<lparr>deps = d, hybridScorer = \<lparr>w_vector = rnd 0.7, w_bm25 = rnd 0.3\<rparr>\<rparr>"
    using new_RetrievalPipeline_default [OF assms, of d]
    by (simp add: DEFAULT_HYBRID_WEIGHTS_def)
  have c: "\<exists>s. hr_score (spec_fused rnd \<lparr>w_vector = rnd 0.7, w_bm25 = rnd 0.3\<rparr>
                               vectorResults bm25Results k) = Fin s \<and>
                  \<bar>s - (0.7 * v + 0.3 * b)\<bar> \<le> 5 / 10 ^ 15"
    if "spec_v vectorResults bm25Results k = Fin v" "spec_b bm25Results k = Fin b"
       "0 \<le> v" "v \<le> 1" "0 \<le> b" "b \<le> 1" for k v b
    using default_score_close [OF assms that(3-6)] that(1,2)
    by (simp add: spec_fused_def)
  from a c set_fuse distinct_fuse show ?thesis by blast
qed


text \<open>
  Witness: the specification's fusion scenario with the rounding of the runs. The
  results are \<open>l2\<close> with the double \<open>0.66\<close> and \<open>l1\<close> with the double \<open>0.62\<close>,
  in this order.
\<close>

theorem fuse_default_weights_witness:
  "accurate_rounding runRounding \<and>
   new_RetrievalPipeline runRounding mockDeps =
     Inr \<lparr>deps = mockDeps,
          hybridScorer = \<lparr>w_vector = Fin (3152519739159347 / 4503599627370496),
                          w_bm25 = Fin (5404319552844595 / 18014398509481984)\<rparr>\<rparr> \<and>
   fuse runRounding codeUnitCompare (DEFAULT_HYBRID_WEIGHTS runRounding)
     scenarioVector scenarioBM25 =
   [\<lparr>hr_leafId = [0x6C, 0x32], hr_score = Fin (5944751508129055 / 9007199254740992),
     hr_vectorScore = Fin (8106479329266893 / 9007199254740992),
     hr_bm25Score = Fin (3602879701896397 / 36028797018963968)\<rparr>,
    \<lparr>hr_leafId = [0x6C, 0x31], hr_score = Fin (5584463537939415 / 9007199254740992),
     hr_vectorScore = Fin (1 / 2),
     hr_bm25Score = Fin (8106479329266893 / 9007199254740992)\<rparr>] \<and>
   spec_v scenarioVector scenarioBM25 [0x6C, 0x31] = Fin (1 / 2) \<and>
   spec_b scenarioBM25 [0x6C, 0x31] = Fin (8106479329266893 / 9007199254740992) \<and>
   \<bar>5584463537939415 / 9007199254740992 -
     (0.7 * (1 / 2) + 0.3 * (8106479329266893 / 9007199254740992))\<bar> \<le> (5 / 10 ^ 15 :: real)"
proof -
  have v: "spec_v scenarioVector scenarioBM25 [0x6C, 0x31] = Fin (1 / 2)"
    by (simp add: spec_v_def spec_vectorCandidate_def scenarioVector_def)
  have b: "spec_b scenarioBM25 [0x6C, 0x31] = Fin (8106479329266893 / 9007199254740992)"
    by (simp add: spec_b_def spec_bm25Candidate_def scenarioBM25_def runRounding_def)
  have r: "runRounding 0.7 = Fin (3152519739159347 / 4503599627370496)"
          "runRounding 0.3 = Fin (5404319552844595 / 18014398509481984)"
    by (simp_all add: runRounding_def)
  have s: "hr_score (spec_fused runRounding
              \<lparr>w_vector = runRounding 0.7, w_bm25 = runRounding 0.3\<rparr>
              scenarioVector scenarioBM25 [0x6C, 0x31]) =
           Fin (5584463537939415 / 9007199254740992)"
    by (simp add: spec_fused_def v b r) (simp add: runRounding_def)
  from fuse_default_weights [OF runRounding_accurate, of mockDeps codeUnitCompare
      scenarioVector scenarioBM25] v b s
  have "\<bar>5584463537939415 / 9007199254740992 -
     (0.7 * (1 / 2) + 0.3 * (8106479329266893 / 9007199254740992))\<bar> \<le> (5 / 10 ^ 15 :: real)"
    by simp
  with fuse_default_weights [OF runRounding_accurate, of mockDeps codeUnitCompare
      scenarioVector scenarioBM25] runRounding_accurate fuse_scenario v b r
  show ?thesis by simp
qed


text \<open>
  C2 as stated fails: the pipeline's scorer holds the doubles of 0.7 and 0.3, and for
  the single vector candidate \<open>l1\<close> with vector score 1 and no BM25 score the fused
  score is the double of 0.7, where 0.75 times 1 plus 0.25 times 0 is 0.75.
\<close>

theorem fuse_default_weights_counterexample:
  "new_RetrievalPipeline runRounding mockDeps =
     Inr \<lparr>deps = mockDeps, hybridScorer = DEFAULT_HYBRID_WEIGHTS runRounding\<rparr> \<and>
   map hr_score (fuse runRounding codeUnitCompare (DEFAULT_HYBRID_WEIGHTS runRounding)
                   [\<lparr>vr_leafId = [0x6C, 0x31], vr_vectorScore = Fin 1\<rparr>] []) =
     [Fin (3152519739159347 / 4503599627370496)] \<and>
   num_add runRounding (num_mul runRounding (Fin 0.75) (Fin 1))
                       (num_mul runRounding (Fin 0.25) (Fin 0)) = Fin 0.75 \<and>
   Fin (3152519739159347 / 4503599627370496) \<noteq> Fin 0.75"
  by (simp add: new_RetrievalPipeline_default runRounding_accurate fuse_single_vector)
     (simp add: runRounding_def)





section \<open>Properties of the retrieval pipeline and the engine's query\<close>





























section \<open>Properties of the chunker\<close>

lemmas chunk_eval =
  chunkNode_def findContentStart_def indexOf_def slice_def trim_def isWhiteSpace_def
  testChunker_def splitIntoParagraphs_def splitLoop.simps skipNewlines_def
  accumulateChunks_def createChunk_def simpleTokenCounter_def Let_def
  DEFAULT_CHUNKER_CONFIG_def

text \<open>
  C1, at a failing input. The document \<open>"# T\n\nA\n\n\nB\n"\<close> has two blank lines
  between its paragraphs. The node of its heading (offsets 0 to 11, no children) gives
  one chunk with \<open>startChar = 4\<close> and \<open>endChar = 11\<close>, whose \<open>text\<close> is the two
  paragraphs joined by \<open>"\n\n"\<close>, six characters, while the text from 4 to 11 has
  seven: the slice of the normalized text is not the chunk's text.
\<close>

theorem chunk_text_is_not_the_slice:
  "chunkNode (testChunker DEFAULT_CHUNKER_CONFIG) [0x74, 0x2E, 0x6D, 0x64]
     (HeadingNode [0x6E] 1 [0x54] [0x54] 0 11 [])
     [0x23, 0x20, 0x54, 0x0A, 0x0A, 0x41, 0x0A, 0x0A, 0x0A, 0x42, 0x0A] 0 =
   Some [\<lparr>c_docUri = [0x74, 0x2E, 0x6D, 0x64], c_nodeId = [0x6E], c_headingPath = [0x54],
          c_startChar = 4, c_endChar = 11,
          c_text = [0x0A, 0x41, 0x0A, 0x0A, 0x42, 0x0A],
          c_shardId = 0, c_tokenCount = 2\<rparr>] \<and>
   slice [0x23, 0x20, 0x54, 0x0A, 0x0A, 0x41, 0x0A, 0x0A, 0x0A, 0x42, 0x0A] 4 11 =
     [0x0A, 0x41, 0x0A, 0x0A, 0x0A, 0x42, 0x0A] \<and>
   slice [0x23, 0x20, 0x54, 0x0A, 0x0A, 0x41, 0x0A, 0x0A, 0x0A, 0x42, 0x0A] 4 11 \<noteq>
     [0x0A, 0x41, 0x0A, 0x0A, 0x42, 0x0A]"
  by (simp add: chunk_eval)

lemma paragraphGroups_acc:
  "paragraphGroups this groups cur tok ps = groups @ paragraphGroups this [] cur tok ps"
proof (induction ps arbitrary: groups cur tok)
  case Nil
  then show ?case by simp
next
  case (Cons p ps)
  show ?case
    using Cons.IH [of "groups @ [cur]"] Cons.IH [of "[cur]"] Cons.IH [of groups]
    by (simp add: Let_def)
qed

lemma accumulateLoop_groups:
  "accumulateLoop this docUri node contentStart shardId chunks cur tok ps =
   chunks @ map (\<lambda>g. createChunk this g docUri node contentStart shardId)
              (paragraphGroups this [] cur tok ps)"
proof (induction ps arbitrary: chunks cur tok)
  case Nil
  then show ?case by simp
next
  case (Cons p ps)
  show ?case
    using paragraphGroups_acc [of this "[cur]" "[p]" "tokenCounter this (p_text p)" ps]
    by (simp add: Let_def Cons.IH)
qed

lemma concat_paragraphGroups:
  "concat (paragraphGroups this groups cur tok ps) = concat groups @ cur @ ps"
  by (induction ps arbitrary: groups cur tok) (simp_all add: Let_def)

lemma paragraphGroups_nonempty:
  "[] \<notin> set groups \<Longrightarrow> [] \<notin> set (paragraphGroups this groups cur tok ps)"
proof (induction ps arbitrary: groups cur tok)
  case Nil
  then show ?case by simp
next
  case (Cons p ps)
  then show ?case by (auto simp: Let_def intro!: Cons.IH)
qed

lemma createChunk_overlapTokens:
  "createChunk (this\<lparr>config := (config this)\<lparr>overlapTokens := k\<rparr>\<rparr>) = createChunk this"
  by (simp add: createChunk_def fun_eq_iff)

lemma paragraphGroups_overlapTokens:
  "paragraphGroups (this\<lparr>config := (config this)\<lparr>overlapTokens := k\<rparr>\<rparr>) groups cur tok ps =
   paragraphGroups this groups cur tok ps"
  by (induction ps arbitrary: groups cur tok) (simp_all add: Let_def)

lemma sorted_wrt_concat_groups:
  "sorted_wrt R (concat gs) \<Longrightarrow>
   sorted_wrt (\<lambda>g h. \<forall>x \<in> set g. \<forall>y \<in> set h. R x y) gs"
  by (induction gs) (auto simp: sorted_wrt_append)

lemma chunks_disjoint_of_groups:
  assumes "sorted_wrt (\<lambda>g h. \<forall>x \<in> set g. \<forall>y \<in> set h.
              startOffset x + length (p_text x) \<le> startOffset y) gs"
    and "[] \<notin> set gs"
  shows "sorted_wrt (\<lambda>c d. c_endChar c \<le> c_startChar d)
           (map (\<lambda>g. createChunk this g docUri node contentStart shardId) gs)"
proof -
  have "\<And>g h. g \<in> set gs \<Longrightarrow> h \<in> set gs \<Longrightarrow>
          (\<forall>x \<in> set g. \<forall>y \<in> set h. startOffset x + length (p_text x) \<le> startOffset y) \<Longrightarrow>
          c_endChar (createChunk this g docUri node contentStart shardId)
            \<le> c_startChar (createChunk this h docUri node contentStart shardId)"
  proof -
    fix g h
    assume g: "g \<in> set gs" and h: "h \<in> set gs"
      and r: "\<forall>x \<in> set g. \<forall>y \<in> set h. startOffset x + length (p_text x) \<le> startOffset y"
    from g h assms(2) have "g \<noteq> []" "h \<noteq> []" by auto
    then have "last g \<in> set g" "hd h \<in> set h" by simp_all
    with r have "startOffset (last g) + length (p_text (last g)) \<le> startOffset (hd h)" by blast
    then show "c_endChar (createChunk this g docUri node contentStart shardId)
            \<le> c_startChar (createChunk this h docUri node contentStart shardId)"
      by (simp add: createChunk_def Let_def)
  qed
  with assms(1) show ?thesis
    unfolding sorted_wrt_map by (rule sorted_wrt_mono_rel [rotated]) blast
qed

text \<open>
  C4 (as amended). The chunks of a node are made from consecutive runs of its
  paragraph list: the runs are not empty and their concatenation is the paragraph list,
  so a chunk after the first starts with the first paragraph that did not go into the
  chunk before it and repeats nothing of that chunk. When each paragraph ends at or
  before the start of the next, each chunk ends at or before the start of the next
  chunk. No overlap region is added: \<open>overlapTokens\<close> has no effect on the result of
  \<open>chunkNode\<close>.
\<close>

theorem chunks_are_paragraph_runs:
  "accumulateChunks this paragraphs docUri node contentStart shardId =
     map (\<lambda>g. createChunk this g docUri node contentStart shardId)
       (paragraphGroups this [] [] 0 paragraphs)
   \<and> concat (paragraphGroups this [] [] 0 paragraphs) = paragraphs
   \<and> [] \<notin> set (paragraphGroups this [] [] 0 paragraphs)
   \<and> (sorted_wrt (\<lambda>p q. startOffset p + length (p_text p) \<le> startOffset q) paragraphs \<longrightarrow>
        sorted_wrt (\<lambda>c d. c_endChar c \<le> c_startChar d)
          (accumulateChunks this paragraphs docUri node contentStart shardId))
   \<and> chunkNode (this\<lparr>config := (config this)\<lparr>overlapTokens := k\<rparr>\<rparr>) docUri node
         normalizedText shardId
       = chunkNode this docUri node normalizedText shardId"
proof -
  have a: "accumulateChunks this paragraphs docUri node contentStart shardId =
     map (\<lambda>g. createChunk this g docUri node contentStart shardId)
       (paragraphGroups this [] [] 0 paragraphs)"
    by (cases paragraphs)
       (simp_all add: accumulateChunks_def accumulateLoop_groups del: accumulateLoop.simps)
  have b: "concat (paragraphGroups this [] [] 0 paragraphs) = paragraphs"
    by (simp add: concat_paragraphGroups)
  have c: "[] \<notin> set (paragraphGroups this [] [] 0 paragraphs)"
    by (rule paragraphGroups_nonempty) simp
  have d: "\<And>ps cs. accumulateChunks (this\<lparr>config := (config this)\<lparr>overlapTokens := k\<rparr>\<rparr>)
                      ps docUri node cs shardId
      = accumulateChunks this ps docUri node cs shardId"
    by (simp add: accumulateChunks_def accumulateLoop_groups createChunk_overlapTokens
        paragraphGroups_overlapTokens del: accumulateLoop.simps)
  have e: "chunkNode (this\<lparr>config := (config this)\<lparr>overlapTokens := k\<rparr>\<rparr>) docUri node
             normalizedText shardId
       = chunkNode this docUri node normalizedText shardId"
    by (simp add: chunkNode_def d Let_def cong: option.case_cong)
  have p: "sorted_wrt (\<lambda>p q. startOffset p + length (p_text p) \<le> startOffset q) paragraphs \<longrightarrow>
        sorted_wrt (\<lambda>c d. c_endChar c \<le> c_startChar d)
          (accumulateChunks this paragraphs docUri node contentStart shardId)"
  proof
    assume "sorted_wrt (\<lambda>p q. startOffset p + length (p_text p) \<le> startOffset q) paragraphs"
    then have "sorted_wrt (\<lambda>p q. startOffset p + length (p_text p) \<le> startOffset q)
                 (concat (paragraphGroups this [] [] 0 paragraphs))"
      by (simp only: b)
    then have "sorted_wrt (\<lambda>g h. \<forall>x \<in> set g. \<forall>y \<in> set h.
                  startOffset x + length (p_text x) \<le> startOffset y)
                 (paragraphGroups this [] [] 0 paragraphs)"
      by (rule sorted_wrt_concat_groups)
    then show "sorted_wrt (\<lambda>c d. c_endChar c \<le> c_startChar d)
          (accumulateChunks this paragraphs docUri node contentStart shardId)"
      unfolding a using c by (rule chunks_disjoint_of_groups)
  qed
  from a b c p e show ?thesis by blast
qed

text \<open>
  Witness: the two paragraphs of the run below, of three tokens each with at most two
  tokens per chunk, make two runs of one paragraph, and two chunks of which the first
  ends at 13 and the second starts at 15.
\<close>

theorem chunks_are_paragraph_runs_witness:
  "sorted_wrt (\<lambda>p q. startOffset p + length (p_text p) \<le> startOffset q)
     [\<lparr>p_text = [0x0A, 0x41, 0x41, 0x41, 0x41, 0x41, 0x41, 0x41, 0x41], startOffset = 0\<rparr>,
      \<lparr>p_text = [0x42, 0x42, 0x42, 0x42, 0x42, 0x42, 0x42, 0x42, 0x0A], startOffset = 11\<rparr>] \<and>
   paragraphGroups
     (testChunker (DEFAULT_CHUNKER_CONFIG\<lparr>targetMaxTokens := 2, overlapTokens := 1\<rparr>)) [] [] 0
     [\<lparr>p_text = [0x0A, 0x41, 0x41, 0x41, 0x41, 0x41, 0x41, 0x41, 0x41], startOffset = 0\<rparr>,
      \<lparr>p_text = [0x42, 0x42, 0x42, 0x42, 0x42, 0x42, 0x42, 0x42, 0x0A], startOffset = 11\<rparr>] =
   [[\<lparr>p_text = [0x0A, 0x41, 0x41, 0x41, 0x41, 0x41, 0x41, 0x41, 0x41], startOffset = 0\<rparr>],
    [\<lparr>p_text = [0x42, 0x42, 0x42, 0x42, 0x42, 0x42, 0x42, 0x42, 0x0A], startOffset = 11\<rparr>]] \<and>
   sorted_wrt (\<lambda>c d. c_endChar c \<le> c_startChar d)
     (accumulateChunks
        (testChunker (DEFAULT_CHUNKER_CONFIG\<lparr>targetMaxTokens := 2, overlapTokens := 1\<rparr>))
        [\<lparr>p_text = [0x0A, 0x41, 0x41, 0x41, 0x41, 0x41, 0x41, 0x41, 0x41], startOffset = 0\<rparr>,
         \<lparr>p_text = [0x42, 0x42, 0x42, 0x42, 0x42, 0x42, 0x42, 0x42, 0x0A], startOffset = 11\<rparr>]
        [0x74, 0x2E, 0x6D, 0x64] (HeadingNode [0x6E] 1 [0x54] [0x54] 0 24 []) 4 0)"
proof -
  have g: "paragraphGroups
     (testChunker (DEFAULT_CHUNKER_CONFIG\<lparr>targetMaxTokens := 2, overlapTokens := 1\<rparr>)) [] [] 0
     [\<lparr>p_text = [0x0A, 0x41, 0x41, 0x41, 0x41, 0x41, 0x41, 0x41, 0x41], startOffset = 0\<rparr>,
      \<lparr>p_text = [0x42, 0x42, 0x42, 0x42, 0x42, 0x42, 0x42, 0x42, 0x0A], startOffset = 11\<rparr>] =
   [[\<lparr>p_text = [0x0A, 0x41, 0x41, 0x41, 0x41, 0x41, 0x41, 0x41, 0x41], startOffset = 0\<rparr>],
    [\<lparr>p_text = [0x42, 0x42, 0x42, 0x42, 0x42, 0x42, 0x42, 0x42, 0x0A], startOffset = 11\<rparr>]]"
    by (simp add: testChunker_def simpleTokenCounter_def DEFAULT_CHUNKER_CONFIG_def Let_def)
  have h: "sorted_wrt (\<lambda>p q. startOffset p + length (p_text p) \<le> startOffset q)
     [\<lparr>p_text = [0x0A, 0x41, 0x41, 0x41, 0x41, 0x41, 0x41, 0x41, 0x41], startOffset = 0\<rparr>,
      \<lparr>p_text = [0x42, 0x42, 0x42, 0x42, 0x42, 0x42, 0x42, 0x42, 0x0A], startOffset = 11\<rparr>]"
    by simp
  from g h chunks_are_paragraph_runs
    [of "testChunker (DEFAULT_CHUNKER_CONFIG\<lparr>targetMaxTokens := 2, overlapTokens := 1\<rparr>)"
      "[\<lparr>p_text = [0x0A, 0x41, 0x41, 0x41, 0x41, 0x41, 0x41, 0x41, 0x41], startOffset = 0\<rparr>,
        \<lparr>p_text = [0x42, 0x42, 0x42, 0x42, 0x42, 0x42, 0x42, 0x42, 0x0A], startOffset = 11\<rparr>]"
      "[0x74, 0x2E, 0x6D, 0x64]" "HeadingNode [0x6E] 1 [0x54] [0x54] 0 24 []" 4 0]
  show ?thesis by blast
qed

text \<open>
  C4 as stated fails. With at most two tokens per chunk and \<open>overlapTokens = 1\<close>, the
  document \<open>"# T\n\nAAAAAAAA\n\nBBBBBBBB\n"\<close> gives two chunks, and the second starts at
  offset 15, after the end of the first at offset 13: it holds no text of the first.
\<close>

theorem no_overlap_counterexample:
  "chunkNode
     (testChunker (DEFAULT_CHUNKER_CONFIG\<lparr>targetMaxTokens := 2, overlapTokens := 1\<rparr>))
     [0x74, 0x2E, 0x6D, 0x64] (HeadingNode [0x6E] 1 [0x54] [0x54] 0 24 [])
     [0x23, 0x20, 0x54, 0x0A, 0x0A, 0x41, 0x41, 0x41, 0x41, 0x41, 0x41, 0x41, 0x41, 0x0A, 0x0A,
      0x42, 0x42, 0x42, 0x42, 0x42, 0x42, 0x42, 0x42, 0x0A] 0 =
   Some [\<lparr>c_docUri = [0x74, 0x2E, 0x6D, 0x64], c_nodeId = [0x6E], c_headingPath = [0x54],
          c_startChar = 4, c_endChar = 13,
          c_text = [0x0A, 0x41, 0x41, 0x41, 0x41, 0x41, 0x41, 0x41, 0x41],
          c_shardId = 0, c_tokenCount = 3\<rparr>,
         \<lparr>c_docUri = [0x74, 0x2E, 0x6D, 0x64], c_nodeId = [0x6E], c_headingPath = [0x54],
          c_startChar = 15, c_endChar = 24,
          c_text = [0x42, 0x42, 0x42, 0x42, 0x42, 0x42, 0x42, 0x42, 0x0A],
          c_shardId = 0, c_tokenCount = 3\<rparr>] \<and>
   (13 :: nat) \<le> 15"
  by (simp add: chunk_eval)

section \<open>Properties of the metadata store\<close>

lemma docUri_updated_rows:
  "map dr_docUri (map (\<lambda>r. if dr_docUri r = uri
                     then r\<lparr>dr_mtime := mt, dr_size := sz, dr_hash := h\<rparr> else r) rows)
   = map dr_docUri rows"
  by (induction rows) auto

lemma rowsFor_update:
  "distinct (map dr_docUri rows) \<Longrightarrow> uri \<in> set (map dr_docUri rows) \<Longrightarrow>
   \<exists>row. filter (\<lambda>r. dr_docUri r = uri)
           (map (\<lambda>r. if dr_docUri r = uri
                     then r\<lparr>dr_mtime := mt, dr_size := sz, dr_hash := h\<rparr> else r) rows) = [row]
         \<and> dr_mtime row = mt \<and> dr_size row = sz \<and> dr_hash row = h \<and> dr_docUri row = uri"
proof (induction rows)
  case Nil
  then show ?case by simp
next
  case (Cons r rows)
  show ?case
  proof (cases "dr_docUri r = uri")
    case True
    then have "uri \<notin> set (map dr_docUri rows)" using Cons.prems by auto
    then have "filter (\<lambda>r. dr_docUri r = uri)
           (map (\<lambda>r. if dr_docUri r = uri
                     then r\<lparr>dr_mtime := mt, dr_size := sz, dr_hash := h\<rparr> else r) rows) = []"
      by (induction rows) auto
    with True show ?thesis by simp
  next
    case False
    with Cons show ?thesis by auto
  qed
qed

lemma upsertDoc_docs:
  "docs (snd (upsertDoc doc db)) =
     (if d_docUri doc \<in> set (map dr_docUri (docs db))
      then map (\<lambda>row. if dr_docUri row = d_docUri doc
                 then row\<lparr>dr_mtime := d_mtime doc, dr_size := d_size doc, dr_hash := d_hash doc\<rparr>
                 else row) (docs db)
      else docs db @ [\<lparr>dr_docId = docs_sequence db + 1, dr_docUri = d_docUri doc,
                       dr_mtime = d_mtime doc, dr_size = d_size doc, dr_hash = d_hash doc\<rparr>])"
  by (simp add: upsertDoc_def Let_def)

lemma upsertDoc_present:
  "d_docUri doc \<in> set (map dr_docUri (docs (snd (upsertDoc doc db))))"
proof (cases "d_docUri doc \<in> set (map dr_docUri (docs db))")
  case True
  then show ?thesis
    unfolding upsertDoc_docs by (simp only: if_True docUri_updated_rows)
next
  case False
  then show ?thesis
    unfolding upsertDoc_docs by simp
qed

lemma upsertDoc_distinct:
  assumes "distinct (map dr_docUri (docs db))"
  shows "distinct (map dr_docUri (docs (snd (upsertDoc doc db))))"
proof (cases "d_docUri doc \<in> set (map dr_docUri (docs db))")
  case True
  with assms show ?thesis
    unfolding upsertDoc_docs by (simp only: if_True docUri_updated_rows)
next
  case False
  with assms show ?thesis
    unfolding upsertDoc_docs by simp
qed

lemma upsertDoc_update_rows:
  assumes "distinct (map dr_docUri (docs db))" and "d_docUri doc \<in> set (map dr_docUri (docs db))"
  shows "\<exists>row. rowsFor (d_docUri doc) (snd (upsertDoc doc db)) = [row]
       \<and> dr_mtime row = d_mtime doc \<and> dr_size row = d_size doc \<and> dr_hash row = d_hash doc"
  using rowsFor_update [where rows = "docs db" and uri = "d_docUri doc" and mt = "d_mtime doc"
      and sz = "d_size doc" and h = "d_hash doc", OF assms] assms(2)
  unfolding rowsFor_def upsertDoc_docs
  by (simp only: if_True) blast

lemma update_absent:
  "uri \<notin> set (map dr_docUri rows) \<Longrightarrow>
   map (\<lambda>r. if dr_docUri r = uri
            then r\<lparr>dr_mtime := mt, dr_size := sz, dr_hash := h\<rparr> else r) rows = rows"
  by (induction rows) auto

lemma update_twice:
  "map (\<lambda>r. if dr_docUri r = uri
            then r\<lparr>dr_mtime := mt, dr_size := sz, dr_hash := h\<rparr> else r)
     (map (\<lambda>r. if dr_docUri r = uri
            then r\<lparr>dr_mtime := mt, dr_size := sz, dr_hash := h\<rparr> else r) rows)
   = map (\<lambda>r. if dr_docUri r = uri
            then r\<lparr>dr_mtime := mt, dr_size := sz, dr_hash := h\<rparr> else r) rows"
  by (induction rows) auto

lemma upsertDoc_docs_idempotent:
  "docs (snd (upsertDoc doc (snd (upsertDoc doc db)))) = docs (snd (upsertDoc doc db))"
proof -
  let ?f = "\<lambda>row. if dr_docUri row = d_docUri doc
              then row\<lparr>dr_mtime := d_mtime doc, dr_size := d_size doc, dr_hash := d_hash doc\<rparr>
              else row"
  let ?db1 = "snd (upsertDoc doc db)"
  have p: "d_docUri doc \<in> set (map dr_docUri (docs ?db1))"
    by (rule upsertDoc_present)
  have s: "docs (snd (upsertDoc doc ?db1)) = map ?f (docs ?db1)"
    unfolding upsertDoc_docs [of doc ?db1] using p by (simp only: if_True)
  have m: "map ?f (docs ?db1) = docs ?db1"
  proof (cases "d_docUri doc \<in> set (map dr_docUri (docs db))")
    case True
    then show ?thesis
      unfolding upsertDoc_docs by (simp only: if_True update_twice)
  next
    case False
    then show ?thesis
      unfolding upsertDoc_docs using update_absent [OF False] by simp
  qed
  show ?thesis
    unfolding s m by simp
qed

text \<open>
  C9. On a \<open>docs\<close> table whose \<open>doc_uri\<close> values are distinct (the column is
  \<open>UNIQUE\<close>), two calls of \<open>upsertDoc\<close> in succession for the same \<open>docUri\<close> leave
  exactly one row for it, and the row carries the second call's \<open>mtime\<close>, \<open>size\<close> and
  \<open>hash\<close>; a repeated call with the same record leaves every row of the table as it
  is.
\<close>

theorem upsertDoc_twice:
  assumes "distinct (map dr_docUri (docs db))" and "d_docUri d2 = d_docUri d1"
  shows "(\<exists>row. rowsFor (d_docUri d1) (snd (upsertDoc d2 (snd (upsertDoc d1 db)))) = [row]
            \<and> dr_mtime row = d_mtime d2 \<and> dr_size row = d_size d2 \<and> dr_hash row = d_hash d2)
       \<and> docs (snd (upsertDoc d1 (snd (upsertDoc d1 db)))) = docs (snd (upsertDoc d1 db))"
  using upsertDoc_update_rows [of "snd (upsertDoc d1 db)" d2]
    upsertDoc_distinct [OF assms(1), of d1] upsertDoc_present [of d1 db] assms(2)
    upsertDoc_docs_idempotent [of d1 db]
  by simp

text \<open>
  Witness: on the empty database, \<open>a.md\<close> is upserted with size 1024 and then with size
  2048. One row is left, with row id 1 and the second call's fields; the counter of the
  table stands at 2.
\<close>

theorem upsertDoc_twice_witness:
  "distinct (map dr_docUri (docs emptyDatabase)) \<and>
   rowsFor [0x61, 0x2E, 0x6D, 0x64]
     (snd (upsertDoc
            \<lparr>d_docUri = [0x61, 0x2E, 0x6D, 0x64], d_mtime = 1700000001, d_size = 2048,
             d_hash = [0x64, 0x65, 0x66]\<rparr>
            (snd (upsertDoc
                   \<lparr>d_docUri = [0x61, 0x2E, 0x6D, 0x64], d_mtime = 1700000000, d_size = 1024,
                    d_hash = [0x61, 0x62, 0x63]\<rparr> emptyDatabase)))) =
   [\<lparr>dr_docId = 1, dr_docUri = [0x61, 0x2E, 0x6D, 0x64], dr_mtime = 1700000001,
     dr_size = 2048, dr_hash = [0x64, 0x65, 0x66]\<rparr>] \<and>
   docs_sequence
     (snd (upsertDoc
            \<lparr>d_docUri = [0x61, 0x2E, 0x6D, 0x64], d_mtime = 1700000001, d_size = 2048,
             d_hash = [0x64, 0x65, 0x66]\<rparr>
            (snd (upsertDoc
                   \<lparr>d_docUri = [0x61, 0x2E, 0x6D, 0x64], d_mtime = 1700000000, d_size = 1024,
                    d_hash = [0x61, 0x62, 0x63]\<rparr> emptyDatabase)))) = 2"
proof -
  have d: "distinct (map dr_docUri (docs emptyDatabase))"
    by (simp add: emptyDatabase_def)
  have e: "rowsFor [0x61, 0x2E, 0x6D, 0x64]
     (snd (upsertDoc
            \<lparr>d_docUri = [0x61, 0x2E, 0x6D, 0x64], d_mtime = 1700000001, d_size = 2048,
             d_hash = [0x64, 0x65, 0x66]\<rparr>
            (snd (upsertDoc
                   \<lparr>d_docUri = [0x61, 0x2E, 0x6D, 0x64], d_mtime = 1700000000, d_size = 1024,
                    d_hash = [0x61, 0x62, 0x63]\<rparr> emptyDatabase)))) =
   [\<lparr>dr_docId = 1, dr_docUri = [0x61, 0x2E, 0x6D, 0x64], dr_mtime = 1700000001,
     dr_size = 2048, dr_hash = [0x64, 0x65, 0x66]\<rparr>]"
    by (simp add: upsertDoc_def rowsFor_def emptyDatabase_def Let_def)
  have c: "docs_sequence
     (snd (upsertDoc
            \<lparr>d_docUri = [0x61, 0x2E, 0x6D, 0x64], d_mtime = 1700000001, d_size = 2048,
             d_hash = [0x64, 0x65, 0x66]\<rparr>
            (snd (upsertDoc
                   \<lparr>d_docUri = [0x61, 0x2E, 0x6D, 0x64], d_mtime = 1700000000, d_size = 1024,
                    d_hash = [0x61, 0x62, 0x63]\<rparr> emptyDatabase)))) = 2"
    by (simp add: upsertDoc_def emptyDatabase_def Let_def)
  from upsertDoc_twice [OF d, of
      "\<lparr>d_docUri = [0x61, 0x2E, 0x6D, 0x64], d_mtime = 1700000001, d_size = 2048,
        d_hash = [0x64, 0x65, 0x66]\<rparr>"
      "\<lparr>d_docUri = [0x61, 0x2E, 0x6D, 0x64], d_mtime = 1700000000, d_size = 1024,
        d_hash = [0x61, 0x62, 0x63]\<rparr>"] d e c
  show ?thesis by simp
qed

section \<open>Properties of the snapshot manager\<close>

lemma keys_Map_set_list:
  "map fst (Map_set k v m) = (if k \<in> set (map fst m) then map fst m else map fst m @ [k])"
  by (induction m) auto

lemma distinct_Map_set: "distinct (map fst m) \<Longrightarrow> distinct (map fst (Map_set k v m))"
  by (simp add: keys_Map_set_list)

lemma map_of_rmSync: "map_of (rmSync d fs) n = (if n = d then None else map_of fs n)"
  by (induction fs) (auto simp: rmSync_def)

lemma distinct_rmSync: "distinct (map fst fs) \<Longrightarrow> distinct (map fst (rmSync d fs))"
  by (simp add: rmSync_def distinct_map_filter)

lemma activeIds_iff:
  "distinct (map fst fs) \<Longrightarrow>
   n \<in> set (activeIds fs) \<longleftrightarrow> (\<exists>m. map_of fs n = Some m \<and> sm_state m = active)"
  by (force simp: activeIds_def)

lemma distinct_activeIds: "distinct (map fst fs) \<Longrightarrow> distinct (activeIds fs)"
  by (simp add: activeIds_def distinct_map_filter)

lemma atMostOneActive_iff:
  "atMostOneActive fs \<longleftrightarrow>
     distinct (map fst fs) \<and>
     (\<forall>a b. a \<in> set (activeIds fs) \<longrightarrow> b \<in> set (activeIds fs) \<longrightarrow> a = b)"
proof (cases "distinct (map fst fs)")
  case False
  then show ?thesis by (simp add: atMostOneActive_def)
next
  case True
  then have d: "distinct (activeIds fs)" by (rule distinct_activeIds)
  show ?thesis
  proof (cases "activeIds fs")
    case Nil
    with True show ?thesis by (simp add: atMostOneActive_def)
  next
    case (Cons x xs)
    show ?thesis
    proof (cases xs)
      case Nil
      with Cons True show ?thesis by (simp add: atMostOneActive_def)
    next
      case (Cons y ys)
      with \<open>activeIds fs = x # xs\<close> d True show ?thesis
        by (auto simp: atMostOneActive_def)
    qed
  qed
qed

lemma set_listSnapshots:
  "set (listSnapshots fs) =
   {\<lparr>si_id = n, si_state = sm_state m, si_createdAt = sm_createdAt m\<rparr> | n m. map_of fs n = Some m}"
proof -
  have "set (List.map_filter (\<lambda>entry. getSnapshotInfo fs (fst entry)) fs) =
        {\<lparr>si_id = n, si_state = sm_state m, si_createdAt = sm_createdAt m\<rparr> | n m.
           map_of fs n = Some m}"
    (is "?L = ?R")
  proof
    show "?L \<subseteq> ?R"
      by (auto simp: List.map_filter_def getSnapshotInfo_def split: option.splits)
    show "?R \<subseteq> ?L"
    proof
      fix i assume "i \<in> ?R"
      then obtain n m where i: "i = \<lparr>si_id = n, si_state = sm_state m, si_createdAt = sm_createdAt m\<rparr>"
        and m: "map_of fs n = Some m" by blast
      from m have "(n, m) \<in> set fs" by (rule map_of_SomeD)
      with m i show "i \<in> ?L"
        by (force simp: List.map_filter_def getSnapshotInfo_def image_iff)
    qed
  qed
  then show ?thesis by (simp add: listSnapshots_def set_js_sort)
qed

lemma getActiveSnapshot_Some:
  "getActiveSnapshot fs = Some i \<Longrightarrow>
   \<exists>m. map_of fs (si_id i) = Some m \<and> sm_state m = active"
proof -
  assume "getActiveSnapshot fs = Some i"
  then have "si_state i = active" and "i \<in> set (listSnapshots fs)"
    by (auto simp: getActiveSnapshot_def find_Some_iff)
  then show ?thesis
    by (auto simp: set_listSnapshots)
qed

lemma getActiveSnapshot_None:
  "getActiveSnapshot fs = None \<Longrightarrow> map_of fs n = Some m \<Longrightarrow> sm_state m \<noteq> active"
proof
  assume a: "getActiveSnapshot fs = None" and m: "map_of fs n = Some m" and s: "sm_state m = active"
  from m have "\<lparr>si_id = n, si_state = sm_state m, si_createdAt = sm_createdAt m\<rparr> \<in> set (listSnapshots fs)"
    unfolding set_listSnapshots by blast
  with a s show False
    by (auto simp: getActiveSnapshot_def find_None_iff)
qed

lemma deleteSnapshot_keeps_active:
  assumes "map_of fs n = Some m" and "sm_state m = active"
    and "deleteSnapshot d fs = Inr fs'"
  shows "map_of fs' n = Some m"
proof (cases "map_of fs d")
  case None
  with assms show ?thesis by (simp add: deleteSnapshot_def getSnapshotInfo_def)
next
  case (Some md)
  with assms have "sm_state md \<noteq> active" and "fs' = rmSync d fs"
    by (auto simp: deleteSnapshot_def getSnapshotInfo_def split: if_splits)
  with assms Some show ?thesis
    by (auto simp: map_of_rmSync)
qed

lemma deleteSnapshot_active:
  "map_of fs n = Some m \<Longrightarrow> sm_state m = active \<Longrightarrow>
   deleteSnapshot n fs = Inl CannotDeleteActiveSnapshot"
  by (simp add: deleteSnapshot_def getSnapshotInfo_def)

lemma cleanupLoop_keeps_active:
  "map_of fs n = Some m \<Longrightarrow> sm_state m = active \<Longrightarrow>
   map_of (fst (cleanupLoop activeId keepCount kept fs snapshots)) n = Some m"
proof (induction snapshots arbitrary: fs kept)
  case Nil
  then show ?case by simp
next
  case (Cons s rest)
  show ?case
  proof (cases "deleteSnapshot (si_id s) fs")
    case (Inl e)
    with Cons show ?thesis by simp
  next
    case (Inr fs')
    with Cons.prems have "map_of fs' n = Some m"
      by (metis deleteSnapshot_keeps_active)
    with Cons Inr show ?thesis by simp
  qed
qed

lemma cleanupLoop_no_error:
  "(\<And>n m. map_of fs n = Some m \<Longrightarrow> sm_state m = active \<Longrightarrow> Some n = activeId) \<Longrightarrow>
   snd (cleanupLoop activeId keepCount kept fs snapshots) = None"
proof (induction snapshots arbitrary: fs kept)
  case Nil
  then show ?case by simp
next
  case (Cons s rest)
  show ?case
  proof (cases "Some (si_id s) = activeId \<or> kept < keepCount")
    case True
    with Cons show ?thesis by auto
  next
    case False
    then have ne: "Some (si_id s) \<noteq> activeId" by simp
    have del: "deleteSnapshot (si_id s) fs = Inr (if map_of fs (si_id s) = None then fs else rmSync (si_id s) fs)"
      using ne Cons.prems
      by (auto simp: deleteSnapshot_def getSnapshotInfo_def split: option.splits)
    have "snd (cleanupLoop activeId keepCount kept
                 (if map_of fs (si_id s) = None then fs else rmSync (si_id s) fs) rest) = None"
      by (rule Cons.IH) (use Cons.prems in \<open>auto simp: map_of_rmSync split: if_splits\<close>)
    with False del show ?thesis by simp
  qed
qed

lemma active_is_current:
  assumes "atMostOneActive fs" and "map_of fs n = Some m" and "sm_state m = active"
  shows "map_option si_id (getActiveSnapshot fs) = Some n"
proof (cases "getActiveSnapshot fs")
  case None
  with assms show ?thesis using getActiveSnapshot_None by blast
next
  case (Some i)
  from getActiveSnapshot_Some [OF Some] assms(1)
  have "si_id i \<in> set (activeIds fs)"
    by (auto simp: atMostOneActive_iff activeIds_iff)
  moreover from assms have "n \<in> set (activeIds fs)"
    by (auto simp: atMostOneActive_iff activeIds_iff)
  ultimately have "si_id i = n"
    using assms(1) by (auto simp: atMostOneActive_iff)
  with Some show ?thesis by simp
qed

lemma cleanup_no_error:
  assumes "atMostOneActive fs"
  shows "snd (cleanupOldSnapshots keepCount fs) = None"
  unfolding cleanupOldSnapshots_def Let_def
  by (rule cleanupLoop_no_error) (simp add: active_is_current [OF assms])

lemma atMostOneActiveI:
  assumes "distinct (map fst fs)"
    and "\<And>a b ma mb. map_of fs a = Some ma \<Longrightarrow> sm_state ma = active \<Longrightarrow>
           map_of fs b = Some mb \<Longrightarrow> sm_state mb = active \<Longrightarrow> a = b"
  shows "atMostOneActive fs"
  unfolding atMostOneActive_iff using assms by (auto simp: activeIds_iff)

lemma atMostOneActiveD:
  assumes "atMostOneActive fs"
  shows "distinct (map fst fs)"
    and "map_of fs a = Some ma \<Longrightarrow> sm_state ma = active \<Longrightarrow>
         map_of fs b = Some mb \<Longrightarrow> sm_state mb = active \<Longrightarrow> a = b"
proof -
  from assms show d: "distinct (map fst fs)" by (simp add: atMostOneActive_iff)
  assume "map_of fs a = Some ma" "sm_state ma = active" "map_of fs b = Some mb" "sm_state mb = active"
  with d have "a \<in> set (activeIds fs)" "b \<in> set (activeIds fs)"
    by (auto simp: activeIds_iff)
  with assms show "a = b" by (simp add: atMostOneActive_iff)
qed

lemma map_of_updateState:
  "map_of (updateState i st fs) =
     (case map_of fs i of
        None \<Rightarrow> map_of fs
      | Some m \<Rightarrow> (map_of fs)(i \<mapsto> \<lparr>sm_state = st, sm_createdAt = sm_createdAt m\<rparr>))"
  by (simp add: updateState_def getSnapshotInfo_def writeMeta_def map_of_Map_set
      split: option.splits)

lemma keys_updateState: "map fst (updateState i st fs) = map fst fs"
proof (cases "map_of fs i")
  case None
  then show ?thesis by (simp add: updateState_def getSnapshotInfo_def)
next
  case (Some m)
  then have "i \<in> set (map fst fs)"
    by (metis map_of_eq_None_iff option.distinct(1) set_map)
  with Some show ?thesis
    by (simp add: updateState_def getSnapshotInfo_def writeMeta_def keys_Map_set_list)
qed

lemma atMostOneActive_create:
  assumes "atMostOneActive fs"
  shows "atMostOneActive (createSnapshot i now fs)"
proof (rule atMostOneActiveI)
  show "distinct (map fst (createSnapshot i now fs))"
    using atMostOneActiveD(1) [OF assms]
    by (simp add: createSnapshot_def writeMeta_def distinct_Map_set)
next
  fix a b ma mb
  assume "map_of (createSnapshot i now fs) a = Some ma" "sm_state ma = active"
    "map_of (createSnapshot i now fs) b = Some mb" "sm_state mb = active"
  then have "map_of fs a = Some ma" "map_of fs b = Some mb"
    by (auto simp: createSnapshot_def writeMeta_def map_of_Map_set split: if_splits)
  with \<open>sm_state ma = active\<close> \<open>sm_state mb = active\<close> show "a = b"
    using atMostOneActiveD(2) [OF assms] by blast
qed

lemma atMostOneActive_rmSync:
  assumes "atMostOneActive fs"
  shows "atMostOneActive (rmSync d fs)"
proof (rule atMostOneActiveI)
  show "distinct (map fst (rmSync d fs))"
    using atMostOneActiveD(1) [OF assms] by (rule distinct_rmSync)
next
  fix a b ma mb
  assume "map_of (rmSync d fs) a = Some ma" "sm_state ma = active"
    "map_of (rmSync d fs) b = Some mb" "sm_state mb = active"
  then have "map_of fs a = Some ma" "map_of fs b = Some mb"
    by (auto simp: map_of_rmSync split: if_splits)
  with \<open>sm_state ma = active\<close> \<open>sm_state mb = active\<close> show "a = b"
    using atMostOneActiveD(2) [OF assms] by blast
qed

lemma atMostOneActive_delete:
  "atMostOneActive fs \<Longrightarrow> deleteSnapshot d fs = Inr fs' \<Longrightarrow> atMostOneActive fs'"
  by (auto simp: deleteSnapshot_def atMostOneActive_rmSync split: option.splits if_splits)

lemma atMostOneActive_cleanupLoop:
  "atMostOneActive fs \<Longrightarrow>
   atMostOneActive (fst (cleanupLoop activeId keepCount kept fs snapshots))"
proof (induction snapshots arbitrary: fs kept)
  case Nil
  then show ?case by simp
next
  case (Cons s rest)
  show ?case
  proof (cases "deleteSnapshot (si_id s) fs")
    case (Inl e)
    with Cons show ?thesis by simp
  next
    case (Inr fs')
    with Cons.prems have "atMostOneActive fs'"
      by (metis atMostOneActive_delete)
    with Cons Inr show ?thesis by simp
  qed
qed

text \<open>The directory between the two writes of an activation.\<close>

lemma deactivateCurrent_props:
  assumes "atMostOneActive fs"
  shows "map fst (deactivateCurrent i fs) = map fst fs"
    and "map_of (deactivateCurrent i fs) n = Some m \<Longrightarrow> sm_state m = active \<Longrightarrow> n = i"
    and "map_of fs i \<noteq> None \<Longrightarrow> map_of (deactivateCurrent i fs) i \<noteq> None"
proof -
  show "map fst (deactivateCurrent i fs) = map fst fs"
    by (simp add: deactivateCurrent_def keys_updateState split: option.splits)
  show "map_of (deactivateCurrent i fs) n = Some m \<Longrightarrow> sm_state m = active \<Longrightarrow> n = i"
  proof -
    assume m: "map_of (deactivateCurrent i fs) n = Some m" and s: "sm_state m = active"
    show "n = i"
    proof (cases "getActiveSnapshot fs")
      case None
      with m s show ?thesis
        using getActiveSnapshot_None [OF None] by (auto simp: deactivateCurrent_def)
    next
      case (Some cur)
      from getActiveSnapshot_Some [OF Some] obtain mc
        where c: "map_of fs (si_id cur) = Some mc" "sm_state mc = active" by blast
      show ?thesis
      proof (cases "si_id cur = i")
        case True
        with Some m have "map_of fs n = Some m" by (simp add: deactivateCurrent_def)
        with s c True show ?thesis
          using atMostOneActiveD(2) [OF assms, of n m "si_id cur" mc] by simp
      next
        case False
        with Some m c s have "n \<noteq> si_id cur" and "map_of fs n = Some m"
          by (auto simp: deactivateCurrent_def map_of_updateState split: if_splits)
        with s c have "n = si_id cur"
          using atMostOneActiveD(2) [OF assms, of n m "si_id cur" mc] by simp
        with \<open>n \<noteq> si_id cur\<close> show ?thesis by simp
      qed
    qed
  qed
  show "map_of fs i \<noteq> None \<Longrightarrow> map_of (deactivateCurrent i fs) i \<noteq> None"
    by (auto simp: deactivateCurrent_def map_of_updateState split: option.splits)
qed


lemma activateSnapshot_props:
  assumes "atMostOneActive fs" and "activateSnapshot i fs = Inr fs'"
  shows "map fst fs' = map fst fs" and "activeIds fs' = [i]" and "atMostOneActive fs'"
    and "map_option si_id (getActiveSnapshot fs') = Some i"
proof -
  let ?fs1 = "deactivateCurrent i fs"
  from assms(2) have p: "map_of fs i \<noteq> None" and f: "fs' = updateState i active ?fs1"
    by (auto simp: activateSnapshot_def getSnapshotInfo_def split: option.splits)
  note d = deactivateCurrent_props [OF assms(1), of i]
  from d(3) [OF p] obtain m1 where m1: "map_of ?fs1 i = Some m1" by blast
  show k: "map fst fs' = map fst fs"
    by (simp add: f keys_updateState d(1))
  have dist: "distinct (map fst fs')"
    using k atMostOneActiveD(1) [OF assms(1)] by simp
  have mo: "map_of fs' = (map_of ?fs1)(i \<mapsto> \<lparr>sm_state = active, sm_createdAt = sm_createdAt m1\<rparr>)"
    by (simp add: f map_of_updateState m1)
  have a: "\<And>n. n \<in> set (activeIds fs') \<longleftrightarrow> n = i"
    using d(2) by (auto simp: activeIds_iff [OF dist] mo)
  then have "set (activeIds fs') = {i}" by blast
  with distinct_activeIds [OF dist] show ai: "activeIds fs' = [i]"
    by (cases "activeIds fs'"; cases "tl (activeIds fs')") auto
  with dist show amo: "atMostOneActive fs'"
    by (simp add: atMostOneActive_def)
  from mo have "map_of fs' i = Some \<lparr>sm_state = active, sm_createdAt = sm_createdAt m1\<rparr>"
    by simp
  then show "map_option si_id (getActiveSnapshot fs') = Some i"
    using active_is_current [OF amo] by simp
qed

lemma atMostOneActive_rollback:
  "atMostOneActive fs \<Longrightarrow> rollback fs = Inr fs' \<Longrightarrow> atMostOneActive fs'"
  unfolding rollback_def Let_def
  by (cases "findIndex (\<lambda>s. si_state s = active) (listSnapshots fs)")
     (auto split: if_splits intro: activateSnapshot_props(3))

lemma reachable_atMostOneActive: "fs \<in> reachable \<Longrightarrow> atMostOneActive fs"
proof (induction rule: reachable.induct)
  case empty
  show ?case by (simp add: atMostOneActive_def activeIds_def)
next
  case (create fs i now)
  then show ?case by (simp add: atMostOneActive_create)
next
  case (activate fs i fs')
  then show ?case by (metis activateSnapshot_props(3))
next
  case (delete fs i fs')
  then show ?case by (metis atMostOneActive_delete)
next
  case (cleanup fs keepCount)
  then show ?case by (simp add: cleanupOldSnapshots_def Let_def atMostOneActive_cleanupLoop)
next
  case (rollback fs fs')
  then show ?case by (metis atMostOneActive_rollback)
qed

lemmas snap_eval =
  twoSnapshots_def getActiveSnapshot_def listSnapshots_def getSnapshotInfo_def js_sort_def
  deactivateCurrent_def updateState_def writeMeta_def activateSnapshot_def
  cleanupOldSnapshots_def deleteSnapshot_def rmSync_def createSnapshot_def






lemma twoSnapshots_cleanup:
  "cleanupOldSnapshots 0 twoSnapshots = ([([0x61], \<lparr>sm_state = active, sm_createdAt = 1\<rparr>)], None)"
  by (simp add: snap_eval)

lemma twoSnapshots_reachable: "twoSnapshots \<in> reachable"
proof -
  have 1: "createSnapshot [0x61] 1 [] \<in> reachable"
    by (rule reachable.create) (rule reachable.empty)
  have "activateSnapshot [0x61] (createSnapshot [0x61] 1 []) =
        Inr [([0x61], \<lparr>sm_state = active, sm_createdAt = 1\<rparr>)]"
    by (simp add: snap_eval)
  with 1 have 2: "[([0x61], \<lparr>sm_state = active, sm_createdAt = 1\<rparr>)] \<in> reachable"
    by (rule reachable.activate)
  have 3: "createSnapshot [0x62] 2 [([0x61], \<lparr>sm_state = active, sm_createdAt = 1\<rparr>)] \<in> reachable"
    using 2 by (rule reachable.create)
  have "activateSnapshot [0x62] (createSnapshot [0x62] 2 [([0x61], \<lparr>sm_state = active, sm_createdAt = 1\<rparr>)]) =
        Inr [([0x61], \<lparr>sm_state = inactive, sm_createdAt = 1\<rparr>),
             ([0x62], \<lparr>sm_state = active, sm_createdAt = 2\<rparr>)]"
    by (simp add: snap_eval)
  with 3 have 4: "[([0x61], \<lparr>sm_state = inactive, sm_createdAt = 1\<rparr>),
             ([0x62], \<lparr>sm_state = active, sm_createdAt = 2\<rparr>)] \<in> reachable"
    by (rule reachable.activate)
  have "activateSnapshot [0x61] [([0x61], \<lparr>sm_state = inactive, sm_createdAt = 1\<rparr>),
             ([0x62], \<lparr>sm_state = active, sm_createdAt = 2\<rparr>)] = Inr twoSnapshots"
    by (simp add: snap_eval)
  with 4 show ?thesis
    by (rule reachable.activate)
qed




text \<open>
  C10. For every directory, every \<open>keepCount\<close> and every snapshot whose state is
  active: \<open>deleteSnapshot\<close> on it throws "Cannot delete active snapshot", and after
  \<open>cleanupOldSnapshots\<close> it is still there, unchanged, whether the call returned or
  threw. In a directory that the manager's operations lead to, \<open>cleanupOldSnapshots\<close>
  does not throw: the active snapshot is skipped.
\<close>

theorem cleanup_keeps_active:
  assumes "getSnapshotInfo fs id' = Some info" and "si_state info = active"
  shows "deleteSnapshot id' fs = Inl CannotDeleteActiveSnapshot
       \<and> getSnapshotInfo (fst (cleanupOldSnapshots keepCount fs)) id' = Some info
       \<and> (fs \<in> reachable \<longrightarrow> snd (cleanupOldSnapshots keepCount fs) = None)"
proof -
  from assms obtain m where m: "map_of fs id' = Some m" "sm_state m = active"
    by (auto simp: getSnapshotInfo_def split: option.splits)
  have a: "deleteSnapshot id' fs = Inl CannotDeleteActiveSnapshot"
    using m by (rule deleteSnapshot_active)
  have "map_of (fst (cleanupOldSnapshots keepCount fs)) id' = Some m"
    unfolding cleanupOldSnapshots_def Let_def using m by (rule cleanupLoop_keeps_active)
  with m assms(1) have b: "getSnapshotInfo (fst (cleanupOldSnapshots keepCount fs)) id' = Some info"
    by (simp add: getSnapshotInfo_def)
  have c: "fs \<in> reachable \<longrightarrow> snd (cleanupOldSnapshots keepCount fs) = None"
    by (simp add: reachable_atMostOneActive cleanup_no_error)
  from a b c show ?thesis by blast
qed

text \<open>
  Witness: with \<open>keepCount = 0\<close>, the cleanup of the directory with \<open>a\<close> (older,
  active) and \<open>b\<close> (newer, inactive) removes \<open>b\<close> and keeps \<open>a\<close>.
\<close>

theorem cleanup_keeps_active_witness:
  "getSnapshotInfo twoSnapshots [0x61] =
     Some \<lparr>si_id = [0x61], si_state = active, si_createdAt = 1\<rparr> \<and>
   twoSnapshots \<in> reachable \<and>
   cleanupOldSnapshots 0 twoSnapshots =
     ([([0x61], \<lparr>sm_state = active, sm_createdAt = 1\<rparr>)], None) \<and>
   deleteSnapshot [0x61] twoSnapshots = Inl CannotDeleteActiveSnapshot"
proof -
  have g: "getSnapshotInfo twoSnapshots [0x61] =
     Some \<lparr>si_id = [0x61], si_state = active, si_createdAt = 1\<rparr>"
    by (simp add: twoSnapshots_def getSnapshotInfo_def)
  have s: "si_state \<lparr>si_id = [0x61], si_state = active, si_createdAt = 1\<rparr> = active"
    by simp
  from cleanup_keeps_active [OF g s, of 0] g twoSnapshots_reachable twoSnapshots_cleanup
  show ?thesis by simp
qed

end
